theory Spec2Isabelle
  imports Main
begin

section \<open>The JavaScript values and library calls the server relies on\<close>

text \<open>
  The server is one file, \<^verbatim>\<open>index.js\<close>. Its own functions are embedded below under their
  source names. What it calls from the runtime (string methods, \<^verbatim>\<open>Date\<close>,
  \<^verbatim>\<open>JSON\<close>, \<^verbatim>\<open>child_process.exec\<close>, \<^verbatim>\<open>fs\<close>) is modelled in this section.
  A string is a list of characters; \<^verbatim>\<open>undefined\<close> is \<open>None\<close>.
\<close>

subsection \<open>Strings\<close>

definition truthy :: "string option \<Rightarrow> bool" where
  \<comment> \<open>a string or \<^verbatim>\<open>undefined\<close> in a condition: the empty string and \<^verbatim>\<open>undefined\<close> are falsy\<close>
  "truthy v = (case v of None \<Rightarrow> False | Some s \<Rightarrow> s \<noteq> [])"

definition js_or :: "string option \<Rightarrow> string option \<Rightarrow> string option" where
  \<comment> \<open>\<^verbatim>\<open>a || b\<close>\<close>
  "js_or a b = (if truthy a then a else b)"

definition or_else :: "string option \<Rightarrow> string \<Rightarrow> string" where
  \<comment> \<open>\<^verbatim>\<open>a || d\<close> for a string \<open>d\<close>\<close>
  "or_else a d = (case a of None \<Rightarrow> d | Some s \<Rightarrow> (if s = [] then d else s))"

definition is_space :: "char \<Rightarrow> bool" where
  \<comment> \<open>the white space and line terminators that \<^verbatim>\<open>trim\<close> strips, among the first 256 code units\<close>
  "is_space c = (c \<in> set [CHR 0x09, CHR 0x0A, CHR 0x0B, CHR 0x0C, CHR 0x0D, CHR 0x20, CHR 0xA0])"

definition js_trim :: "string \<Rightarrow> string" where
  \<comment> \<open>\<^verbatim>\<open>s.trim()\<close>\<close>
  "js_trim s = rev (dropWhile is_space (rev (dropWhile is_space s)))"

fun split_on :: "char \<Rightarrow> string \<Rightarrow> string list" where
  \<comment> \<open>\<^verbatim>\<open>s.split(c)\<close> for a one-character separator; the result is never empty\<close>
  "split_on c [] = [[]]"
| "split_on c (x # xs) =
     (if x = c then [] # split_on c xs
      else (case split_on c xs of [] \<Rightarrow> [[x]] | l # ls \<Rightarrow> (x # l) # ls))"

fun indexOf :: "char \<Rightarrow> string \<Rightarrow> nat option" where
  \<comment> \<open>\<^verbatim>\<open>s.indexOf(c)\<close>; \<open>None\<close> stands for the result \<open>-1\<close>\<close>
  "indexOf c [] = None"
| "indexOf c (x # xs) = (if x = c then Some 0 else map_option Suc (indexOf c xs))"

fun starts_with :: "string \<Rightarrow> string \<Rightarrow> bool" where
  "starts_with s [] = True"
| "starts_with [] (p # ps) = False"
| "starts_with (x # xs) (p # ps) = (x = p \<and> starts_with xs ps)"

fun str_includes :: "string \<Rightarrow> string \<Rightarrow> bool" where
  \<comment> \<open>\<^verbatim>\<open>hay.includes(needle)\<close>: the needle occurs as a contiguous substring\<close>
  "str_includes [] needle = (needle = [])"
| "str_includes (x # xs) needle = (starts_with (x # xs) needle \<or> str_includes xs needle)"

definition slice_last :: "nat \<Rightarrow> string \<Rightarrow> string" where
  \<comment> \<open>\<^verbatim>\<open>s.slice(-n)\<close>: the last \<open>n\<close> characters, the whole string when it is shorter\<close>
  "slice_last n s = drop (length s - n) s"

definition slice0 :: "int \<Rightarrow> 'a list \<Rightarrow> 'a list" where
  \<comment> \<open>\<^verbatim>\<open>xs.slice(0, k)\<close>: a negative end counts from the end of the array\<close>
  "slice0 k xs = (if k < 0 then take (nat (int (length xs) + k)) xs else take (nat k) xs)"

definition digit_char :: "nat \<Rightarrow> char" where
  "digit_char d = ''0123456789'' ! d"

fun show_nat :: "nat \<Rightarrow> string" where
  \<comment> \<open>\<^verbatim>\<open>String(n)\<close> for a natural number\<close>
  "show_nat n = (if n < 10 then [digit_char n] else show_nat (n div 10) @ [digit_char (n mod 10)])"

declare show_nat.simps [simp del]

definition show_int :: "int \<Rightarrow> string" where
  \<comment> \<open>\<^verbatim>\<open>String(i)\<close> for an integer\<close>
  "show_int i = (if i < 0 then CHR ''-'' # show_nat (nat (- i)) else show_nat (nat i))"

definition padStart2 :: "string \<Rightarrow> string" where
  \<comment> \<open>\<^verbatim>\<open>s.padStart(2, "0")\<close>\<close>
  "padStart2 s = replicate (2 - length s) CHR ''0'' @ s"

subsection \<open>Dates\<close>

text \<open>
  A \<^verbatim>\<open>Date\<close> is read only through its local calendar fields, so it is modelled as the
  number of its local calendar day, counted from 1970-01-01. \<open>civil\<close> is the proleptic
  Gregorian calendar the runtime uses for \<^verbatim>\<open>getFullYear\<close>, \<^verbatim>\<open>getMonth\<close> and
  \<^verbatim>\<open>getDate\<close>; \<^verbatim>\<open>setDate\<close> with an out-of-range day rolls over into the neighbouring
  months, which is a shift of the day number.
\<close>

type_synonym js_date = int

definition civil :: "js_date \<Rightarrow> int \<times> int \<times> int" where
  "civil z0 =
     (let z = z0 + 719468;
          era = z div 146097;
          doe = z mod 146097;
          yoe = (doe - doe div 1460 + doe div 36524 - doe div 146096) div 365;
          doy = doe - (365 * yoe + yoe div 4 - yoe div 100);
          mp = (5 * doy + 2) div 153;
          d = doy - (153 * mp + 2) div 5 + 1;
          m = (if mp < 10 then mp + 3 else mp - 9);
          y = yoe + era * 400 + (if m \<le> 2 then 1 else 0)
      in (y, m, d))"

text \<open>
  The same computation in stages, each stage receiving the values computed so far. The
  stages are what the examples evaluate.
\<close>

definition civil_md :: "int \<Rightarrow> int \<Rightarrow> int \<Rightarrow> int \<times> int \<times> int" where
  "civil_md y0 doy mp =
     (y0 + (if (if mp < 10 then mp + 3 else mp - 9) \<le> 2 then 1 else 0),
      (if mp < 10 then mp + 3 else mp - 9),
      doy - (153 * mp + 2) div 5 + 1)"

definition civil_doy :: "int \<Rightarrow> int \<Rightarrow> int \<times> int \<times> int" where
  "civil_doy y0 doy = civil_md y0 doy ((5 * doy + 2) div 153)"

definition civil_yoe :: "int \<Rightarrow> int \<Rightarrow> int \<Rightarrow> int \<times> int \<times> int" where
  "civil_yoe era doe yoe = civil_doy (yoe + era * 400) (doe - (365 * yoe + yoe div 4 - yoe div 100))"

definition civil_doe :: "int \<Rightarrow> int \<Rightarrow> int \<times> int \<times> int" where
  "civil_doe era doe = civil_yoe era doe ((doe - doe div 1460 + doe div 36524 - doe div 146096) div 365)"

definition getFullYear :: "js_date \<Rightarrow> int" where
  "getFullYear d = fst (civil d)"

definition getMonth :: "js_date \<Rightarrow> int" where
  \<comment> \<open>months count from 0\<close>
  "getMonth d = fst (snd (civil d)) - 1"

definition getDate :: "js_date \<Rightarrow> int" where
  "getDate d = snd (snd (civil d))"

definition setDate :: "js_date \<Rightarrow> int \<Rightarrow> js_date" where
  \<comment> \<open>\<^verbatim>\<open>date.setDate(n)\<close>: day \<open>n\<close> of the date's month, rolling over when out of range\<close>
  "setDate d n = d - getDate d + n"

subsection \<open>JSON\<close>

datatype json =
    JNull
  | JBool bool
  | JNum int
  | JStr string
  | JArr "json list"
  | JObj "(string \<times> json) list"

definition hex_digit :: "nat \<Rightarrow> char" where
  "hex_digit d = ''0123456789abcdef'' ! d"

definition escape_char :: "char \<Rightarrow> string" where
  \<comment> \<open>one character inside a JSON string, as \<^verbatim>\<open>JSON.stringify\<close> writes it\<close>
  "escape_char c =
     (if c = CHR 0x22 then [CHR 0x5C, CHR 0x22]
      else if c = CHR 0x5C then [CHR 0x5C, CHR 0x5C]
      else if c = CHR 0x08 then [CHR 0x5C, CHR ''b'']
      else if c = CHR 0x0C then [CHR 0x5C, CHR ''f'']
      else if c = CHR 0x0A then [CHR 0x5C, CHR ''n'']
      else if c = CHR 0x0D then [CHR 0x5C, CHR ''r'']
      else if c = CHR 0x09 then [CHR 0x5C, CHR ''t'']
      else if (of_char c :: nat) < 32
        then [CHR 0x5C, CHR ''u'', CHR ''0'', CHR ''0'',
              hex_digit ((of_char c :: nat) div 16), hex_digit ((of_char c :: nat) mod 16)]
      else [c])"

definition quote :: "string \<Rightarrow> string" where
  "quote s = CHR 0x22 # concat (map escape_char s) @ [CHR 0x22]"

fun JSON_stringify :: "json \<Rightarrow> string"
  and stringify_elems :: "json list \<Rightarrow> string"
  and stringify_members :: "(string \<times> json) list \<Rightarrow> string"
where
  "JSON_stringify JNull = ''null''"
| "JSON_stringify (JBool b) = (if b then ''true'' else ''false'')"
| "JSON_stringify (JNum i) = show_int i"
| "JSON_stringify (JStr s) = quote s"
| "JSON_stringify (JArr vs) = CHR ''['' # stringify_elems vs @ '']''"
| "JSON_stringify (JObj ms) = CHR ''{'' # stringify_members ms @ ''}''"
| "stringify_elems [] = []"
| "stringify_elems (v # vs) =
     JSON_stringify v @ (if vs = [] then [] else CHR '','' # stringify_elems vs)"
| "stringify_members [] = []"
| "stringify_members (m # ms) =
     quote (fst m) @ CHR '':'' # JSON_stringify (snd m)
       @ (if ms = [] then [] else CHR '','' # stringify_members ms)"

text \<open>
  \<^verbatim>\<open>JSON.parse\<close> belongs to the runtime. The functions that call it below take the parser
  as a parameter \<open>P\<close>, so what is proved of the queries holds for every parser.
  \<open>JSON_parse\<close> is a recursive-descent reading of the JSON grammar (integers only,
  \<^verbatim>\<open>\u\<close> escapes below 256); it reads back every text \<open>JSON_stringify\<close> writes. Its
  recursion is bounded by the length of the text, which every call shortens.
\<close>

definition json_ws :: "char \<Rightarrow> bool" where
  "json_ws c = (c = CHR 0x20 \<or> c = CHR 0x09 \<or> c = CHR 0x0A \<or> c = CHR 0x0D)"

definition skip_ws :: "string \<Rightarrow> string" where
  "skip_ws s = dropWhile json_ws s"

fun index_in :: "char \<Rightarrow> string \<Rightarrow> nat \<Rightarrow> nat option" where
  "index_in c [] k = None"
| "index_in c (x # xs) k = (if x = c then Some k else index_in c xs (Suc k))"

definition digit_val :: "char \<Rightarrow> nat option" where
  "digit_val c = index_in c ''0123456789'' 0"

definition hex_val :: "char \<Rightarrow> nat option" where
  "hex_val c =
     (case index_in c ''0123456789abcdef'' 0 of
        Some v \<Rightarrow> Some v
      | None \<Rightarrow> map_option (\<lambda>v. v + 10) (index_in c ''ABCDEF'' 0))"

definition unescape :: "char \<Rightarrow> char option" where
  \<comment> \<open>the character a two-character escape stands for\<close>
  "unescape e =
     (if e = CHR 0x22 then Some (CHR 0x22)
      else if e = CHR 0x5C then Some (CHR 0x5C)
      else if e = CHR ''/'' then Some (CHR ''/'')
      else if e = CHR ''b'' then Some (CHR 0x08)
      else if e = CHR ''f'' then Some (CHR 0x0C)
      else if e = CHR ''n'' then Some (CHR 0x0A)
      else if e = CHR ''r'' then Some (CHR 0x0D)
      else if e = CHR ''t'' then Some (CHR 0x09)
      else None)"

definition hex4 :: "char \<Rightarrow> char \<Rightarrow> char \<Rightarrow> char \<Rightarrow> char option" where
  "hex4 a b c d =
     (case (hex_val a, hex_val b, hex_val c, hex_val d) of
        (Some p, Some q, Some r, Some t) \<Rightarrow>
          (if p = 0 \<and> q = 0 then Some (char_of (16 * r + t)) else None)
      | _ \<Rightarrow> None)"

fun parse_chars :: "string \<Rightarrow> (string \<times> string) option" where
  \<comment> \<open>the characters of a string literal, after its opening quote, and the text that follows\<close>
  "parse_chars [] = None"
| "parse_chars (c # cs) =
     (if c = CHR 0x22 then Some ([], cs)
      else if c = CHR 0x5C then
        (case cs of
           [] \<Rightarrow> None
         | e # r \<Rightarrow>
             if e = CHR ''u'' then
               (case r of
                  h1 # h2 # h3 # h4 # r' \<Rightarrow>
                    (case hex4 h1 h2 h3 h4 of
                       None \<Rightarrow> None
                     | Some ch \<Rightarrow> map_option (\<lambda>(s, rest). (ch # s, rest)) (parse_chars r'))
                | _ \<Rightarrow> None)
             else
               (case unescape e of
                  None \<Rightarrow> None
                | Some ch \<Rightarrow> map_option (\<lambda>(s, rest). (ch # s, rest)) (parse_chars r)))
      else if (of_char c :: nat) < 32 then None
      else map_option (\<lambda>(s, rest). (c # s, rest)) (parse_chars cs))"

fun parse_digits :: "nat \<Rightarrow> string \<Rightarrow> nat \<times> string" where
  \<comment> \<open>the digits at the front of the text, read into the accumulator\<close>
  "parse_digits acc [] = (acc, [])"
| "parse_digits acc (c # cs) =
     (case digit_val c of None \<Rightarrow> (acc, c # cs) | Some d \<Rightarrow> parse_digits (10 * acc + d) cs)"

definition parse_number :: "string \<Rightarrow> (int \<times> string) option" where
  "parse_number s =
     (let neg = (case s of c # _ \<Rightarrow> c = CHR ''-'' | [] \<Rightarrow> False);
          t = (if neg then tl s else s)
      in case t of
           [] \<Rightarrow> None
         | c # _ \<Rightarrow>
             (if digit_val c = None then None
              else (case parse_digits 0 t of
                      (n, rest) \<Rightarrow>
                        (if (case rest of [] \<Rightarrow> False | x # _ \<Rightarrow> x \<in> set ''.eE'') then None
                         else Some (if neg then - int n else int n, rest)))))"

fun parse_value :: "nat \<Rightarrow> string \<Rightarrow> (json \<times> string) option"
  and parse_elems :: "nat \<Rightarrow> string \<Rightarrow> (json list \<times> string) option"
  and parse_members :: "nat \<Rightarrow> string \<Rightarrow> ((string \<times> json) list \<times> string) option"
where
  "parse_value 0 s = None"
| "parse_value (Suc n) s =
     (case skip_ws s of
        [] \<Rightarrow> None
      | c # cs \<Rightarrow>
          if c = CHR ''['' then
            (case skip_ws cs of
               [] \<Rightarrow> None
             | d # r \<Rightarrow>
                 if d = CHR '']'' then Some (JArr [], r)
                 else map_option (\<lambda>(vs, rest). (JArr vs, rest)) (parse_elems n cs))
          else if c = CHR ''{'' then
            (case skip_ws cs of
               [] \<Rightarrow> None
             | d # r \<Rightarrow>
                 if d = CHR ''}'' then Some (JObj [], r)
                 else map_option (\<lambda>(ms, rest). (JObj ms, rest)) (parse_members n cs))
          else if c = CHR 0x22 then map_option (\<lambda>(str, rest). (JStr str, rest)) (parse_chars cs)
          else if starts_with (c # cs) ''true'' then Some (JBool True, drop 4 (c # cs))
          else if starts_with (c # cs) ''false'' then Some (JBool False, drop 5 (c # cs))
          else if starts_with (c # cs) ''null'' then Some (JNull, drop 4 (c # cs))
          else map_option (\<lambda>(i, rest). (JNum i, rest)) (parse_number (c # cs)))"
| "parse_elems 0 s = None"
| "parse_elems (Suc n) s =
     (case parse_value n s of
        None \<Rightarrow> None
      | Some (v, r) \<Rightarrow>
          (case skip_ws r of
             [] \<Rightarrow> None
           | c # r' \<Rightarrow>
               if c = CHR '','' then map_option (\<lambda>(vs, rest). (v # vs, rest)) (parse_elems n r')
               else if c = CHR '']'' then Some ([v], r')
               else None))"
| "parse_members 0 s = None"
| "parse_members (Suc n) s =
     (case skip_ws s of
        [] \<Rightarrow> None
      | q # s1 \<Rightarrow>
          if q \<noteq> CHR 0x22 then None
          else
            (case parse_chars s1 of
               None \<Rightarrow> None
             | Some (k, s2) \<Rightarrow>
                 (case skip_ws s2 of
                    [] \<Rightarrow> None
                  | col # s3 \<Rightarrow>
                      if col \<noteq> CHR '':'' then None
                      else
                        (case parse_value n s3 of
                           None \<Rightarrow> None
                         | Some (v, r) \<Rightarrow>
                             (case skip_ws r of
                                [] \<Rightarrow> None
                              | c # r' \<Rightarrow>
                                  if c = CHR '','' then
                                    map_option (\<lambda>(ms, rest). ((k, v) # ms, rest)) (parse_members n r')
                                  else if c = CHR ''}'' then Some ([(k, v)], r')
                                  else None)))))"

definition JSON_parse :: "string \<Rightarrow> json option" where
  \<comment> \<open>\<^verbatim>\<open>JSON.parse(text)\<close>; \<open>None\<close> when it throws a \<^verbatim>\<open>SyntaxError\<close>\<close>
  "JSON_parse s =
     (case parse_value (Suc (length s)) s of
        None \<Rightarrow> None
      | Some (v, rest) \<Rightarrow> (if skip_ws rest = [] then Some v else None))"

fun jget :: "string \<Rightarrow> json \<Rightarrow> json option" where
  \<comment> \<open>\<^verbatim>\<open>obj[key]\<close> of a parsed object\<close>
  "jget k (JObj ms) = map_of ms k"
| "jget k v = None"

section \<open>The server\<close>

subsection \<open>The world outside and the state of the process\<close>

text \<open>
  A run depends on what the clock reads, what the commands do and whether the file system
  accepts a write. These are fields of a \<open>world\<close>: the \<open>k\<close>-th reading of the clock
  (\<^verbatim>\<open>Date.now()\<close> in milliseconds, the local calendar day of \<^verbatim>\<open>new Date()\<close>), and the
  outcome of the \<open>k\<close>-th call of \<^verbatim>\<open>exec\<close> for a command and a working directory.
  \<^verbatim>\<open>toISOString()\<close> of a date is kept as its millisecond reading. The world also
  fixes \<^verbatim>\<open>__dirname\<close>, the absolute path of the directory the script lies in.

  The state of the process is what the functions read and change: how often the clock
  was read, the commands executed so far (command and working directory, in order), the
  set \<^verbatim>\<open>running\<close>, the \<^verbatim>\<open>logs\<close> directory with its files, and what
  \<^verbatim>\<open>console.error\<close> printed on the write path. The informational \<^verbatim>\<open>console.log\<close> lines
  and the diagnostic of \<^verbatim>\<open>parseLogFile\<close> for a line it skips are left out.
\<close>

datatype exec_result =
    Resolved string string  \<comment> \<open>\<^verbatim>\<open>resolve({ stdout, stderr })\<close>\<close>
  | Rejected string string string  \<comment> \<open>\<^verbatim>\<open>reject({ error: error.message, stderr, stdout })\<close>\<close>

record world =
  now_ms :: "nat \<Rightarrow> int"
  local_day :: "nat \<Rightarrow> js_date"
  exec_out :: "nat \<Rightarrow> string \<Rightarrow> string \<Rightarrow> exec_result"
  mkdir_ok :: bool
  append_ok :: bool
  dirname :: string

datatype js_error =
    ExecError string string string  \<comment> \<open>the object \<^verbatim>\<open>execCommand\<close> rejects with: error, stderr, stdout\<close>
  | TypeError string  \<comment> \<open>an \<^verbatim>\<open>Error\<close> of the runtime, with its message\<close>
  | FsError string  \<comment> \<open>an \<^verbatim>\<open>Error\<close> of \<^verbatim>\<open>fs\<close>, with its message\<close>

fun err_error :: "js_error \<Rightarrow> string option" where
  \<comment> \<open>\<^verbatim>\<open>err.error\<close>\<close>
  "err_error (ExecError e se so) = Some e"
| "err_error (TypeError m) = None"
| "err_error (FsError m) = None"

fun err_message :: "js_error \<Rightarrow> string option" where
  \<comment> \<open>\<^verbatim>\<open>err.message\<close>\<close>
  "err_message (ExecError e se so) = None"
| "err_message (TypeError m) = Some m"
| "err_message (FsError m) = Some m"

datatype report =
    FailedCreateLogsDir  \<comment> \<open>\<^verbatim>\<open>"Failed to create logs directory:"\<close>\<close>
  | FailedSaveLog  \<comment> \<open>\<^verbatim>\<open>"Failed to save log:"\<close>\<close>
  | StepFailed string string "string option"  \<comment> \<open>deployId, step name, \<^verbatim>\<open>err.error\<close>\<close>
  | DeploymentFailed string  \<comment> \<open>deployId\<close>

record server =
  ticks :: nat
  execs :: "(string \<times> string) list"
  running :: "string set"
  dir_exists :: bool
  files :: "string \<rightharpoonup> string"
  console :: "report list"

definition Date_now :: "world \<Rightarrow> server \<Rightarrow> int \<times> server" where
  \<comment> \<open>\<^verbatim>\<open>Date.now()\<close>\<close>
  "Date_now w s = (now_ms w (ticks s), s\<lparr>ticks := Suc (ticks s)\<rparr>)"

definition new_Date :: "world \<Rightarrow> server \<Rightarrow> js_date \<times> server" where
  \<comment> \<open>\<^verbatim>\<open>new Date()\<close>, read through its local calendar fields\<close>
  "new_Date w s = (local_day w (ticks s), s\<lparr>ticks := Suc (ticks s)\<rparr>)"

definition new_Date_toISOString :: "world \<Rightarrow> server \<Rightarrow> int \<times> server" where
  \<comment> \<open>\<^verbatim>\<open>new Date().toISOString()\<close>\<close>
  "new_Date_toISOString w s = (now_ms w (ticks s), s\<lparr>ticks := Suc (ticks s)\<rparr>)"

subsection \<open>Configuration and run records\<close>

text \<open>
  \<^verbatim>\<open>config.steps\<close> is an array read from YAML: an entry is a step object or
  \<^verbatim>\<open>null\<close> (\<open>None\<close>). A step has a \<^verbatim>\<open>command\<close> string and may lack a \<^verbatim>\<open>name\<close>.
\<close>

record step_config =
  cfg_name :: "string option"
  cfg_command :: string

record app_config =
  cfg_path :: string
  cfg_steps :: "step_config option list"

text \<open>
  The entries of \<^verbatim>\<open>log.steps\<close>. A successful step has \<^verbatim>\<open>output\<close> and \<^verbatim>\<open>stderr\<close>; a
  failed step has \<^verbatim>\<open>error\<close>, \<^verbatim>\<open>stderr\<close> and \<^verbatim>\<open>stdout\<close>. A field the object lacks is
  \<open>None\<close>.
\<close>

record step_result =
  order :: nat
  name :: string
  command :: string
  status :: string
  duration :: int
  step_output :: "string option"  \<comment> \<open>the field \<^verbatim>\<open>output\<close>\<close>
  stderr :: "string option"
  error :: "string option"
  stdout :: "string option"

text \<open>
  The object \<^verbatim>\<open>log\<close> of \<^verbatim>\<open>deployApp\<close>. Its \<^verbatim>\<open>status\<close>, \<^verbatim>\<open>duration\<close> and
  \<^verbatim>\<open>error\<close> are the fields \<open>run_status\<close>, \<open>run_duration\<close> and \<open>run_error\<close>.
\<close>

record run_log =
  deployId :: string
  app :: string
  env :: string
  startTime :: int
  run_status :: string
  path :: string
  steps :: "step_result list"
  run_duration :: "int option"
  run_error :: "string option"
  endTime :: "int option"

subsection \<open>Log files\<close>

text \<open>
  The files are reached through \<^verbatim>\<open>path.join(LOGS_DIR, name)\<close>. With the separator
  \<^verbatim>\<open>/\<close>, \<^verbatim>\<open>path.join\<close> puts its arguments together and normalises the result: it goes
  through the segments from left to right, drops an empty segment and the segment
  \<^verbatim>\<open>.\<close>, and lets the segment \<^verbatim>\<open>..\<close> take back the segment before it (at the root
  there is none to take back). \<open>normalizeString res segs\<close> is this pass over the segments
  \<open>segs\<close> still to come, \<open>res\<close> being the segments kept so far.

  In the state a file that lies directly in \<^verbatim>\<open>LOGS_DIR\<close> goes by its name, and every
  other file by its absolute path, which starts with \<^verbatim>\<open>/\<close>.
\<close>

fun normalizeString :: "string list \<Rightarrow> string list \<Rightarrow> string list" where
  "normalizeString res [] = res"
| "normalizeString res (seg # segs) =
     (if seg = [] \<or> seg = ''.'' then normalizeString res segs
      else if seg = ''..'' then normalizeString (butlast res) segs
      else normalizeString (res @ [seg]) segs)"

definition LOGS_DIR :: "world \<Rightarrow> string list" where
  \<comment> \<open>the segments of \<^verbatim>\<open>path.join(__dirname, "logs")\<close>\<close>
  "LOGS_DIR w = normalizeString [] (split_on CHR ''/'' (dirname w) @ [''logs''])"

definition absolute :: "string list \<Rightarrow> string" where
  \<comment> \<open>the absolute path with these segments\<close>
  "absolute segs = (if segs = [] then ''/'' else concat (map (\<lambda>seg. CHR ''/'' # seg) segs))"

definition path_join_LOGS_DIR :: "world \<Rightarrow> string \<Rightarrow> string" where
  \<comment> \<open>the file that \<^verbatim>\<open>path.join(LOGS_DIR, file)\<close> names, for a string \<open>file\<close> that is not empty\<close>
  "path_join_LOGS_DIR w file =
     (let p = normalizeString (LOGS_DIR w) (split_on CHR ''/'' file)
      in if p \<noteq> [] \<and> butlast p = LOGS_DIR w then last p else absolute p)"

definition getLogFilePath :: "js_date \<Rightarrow> string" where
  \<comment> \<open>the name of the file inside \<^verbatim>\<open>LOGS_DIR\<close>; it has no \<^verbatim>\<open>/\<close>, so that
      \<^verbatim>\<open>path.join(LOGS_DIR, name)\<close> is the file of this name in \<^verbatim>\<open>LOGS_DIR\<close>\<close>
  "getLogFilePath date =
     (let year = getFullYear date;
          month = padStart2 (show_int (getMonth date + 1));
          day = padStart2 (show_int (getDate date))
      in show_int year @ month @ day @ ''.txt'')"

definition getLogFilePath_today :: "world \<Rightarrow> server \<Rightarrow> string \<times> server" where
  \<comment> \<open>\<^verbatim>\<open>getLogFilePath()\<close> with the default argument \<^verbatim>\<open>new Date()\<close>\<close>
  "getLogFilePath_today w s = (case new_Date w s of (date, s') \<Rightarrow> (getLogFilePath date, s'))"

definition ensureLogsDir :: "world \<Rightarrow> server \<Rightarrow> server" where
  \<comment> \<open>\<^verbatim>\<open>fs.mkdir(LOGS_DIR, { recursive: true })\<close>; its error is caught and reported\<close>
  "ensureLogsDir w s =
     (if mkdir_ok w then s\<lparr>dir_exists := True\<rparr>
      else s\<lparr>console := console s @ [FailedCreateLogsDir]\<rparr>)"

definition readFile :: "server \<Rightarrow> string \<Rightarrow> js_error + string" where
  \<comment> \<open>\<^verbatim>\<open>fs.readFile(path, "utf8")\<close>; a path with a null byte is refused\<close>
  "readFile s p =
     (if CHR 0x00 \<in> set p then Inl (TypeError ''ERR_INVALID_ARG_VALUE'')
      else case files s p of None \<Rightarrow> Inl (FsError ''ENOENT'') | Some data \<Rightarrow> Inr data)"

definition appendFile :: "world \<Rightarrow> string \<Rightarrow> string \<Rightarrow> server \<Rightarrow> js_error + server" where
  \<comment> \<open>\<^verbatim>\<open>fs.appendFile(path, data, "utf8")\<close>: creates the file when it is absent\<close>
  "appendFile w p data s =
     (if dir_exists s \<and> append_ok w
      then Inr (s\<lparr>files := (files s)(p \<mapsto> (case files s p of None \<Rightarrow> [] | Some old \<Rightarrow> old) @ data)\<rparr>)
      else Inl (FsError ''appendFile failed''))"

type_synonym log_entry = "string \<times> json"

definition parse_line :: "(string \<Rightarrow> json option) \<Rightarrow> string \<Rightarrow> log_entry option" where
  \<comment> \<open>the body of the loop of \<^verbatim>\<open>parseLogFile\<close>; \<open>None\<close> when the line is skipped\<close>
  "parse_line P line =
     (case indexOf CHR '':'' line of
        None \<Rightarrow> None
      | Some colonIndex \<Rightarrow>
          (let deployId' = js_trim (take colonIndex line);
               stepsJson = js_trim (drop (colonIndex + 1) line)
           in case P stepsJson of
                None \<Rightarrow> None
              | Some steps' \<Rightarrow> Some (deployId', steps')))"

definition parseLogFile :: "(string \<Rightarrow> json option) \<Rightarrow> string \<Rightarrow> log_entry list" where
  "parseLogFile P content =
     (let lines = filter (\<lambda>line. js_trim line \<noteq> []) (split_on CHR 0x0A content)
      in List.map_filter (parse_line P) lines)"

definition formatStep :: "nat \<Rightarrow> step_result \<Rightarrow> json" where
  \<comment> \<open>the callback of \<^verbatim>\<open>logEntry.steps.map\<close> in \<^verbatim>\<open>saveLog\<close>\<close>
  "formatStep index step =
     JObj [(''step'', JNum (int index)),
           (''name'', JStr (name step)),
           (''command'', JStr (command step)),
           (''status'', JStr (status step)),
           (''duration'', JNum (duration step)),
           (''output'', JStr (or_else (js_or (step_output step) (stdout step)) [])),
           (''stderr'', JStr (or_else (stderr step) [])),
           (''error'', JStr (or_else (error step) []))]"

definition formattedSteps :: "step_result list \<Rightarrow> json list" where
  "formattedSteps xs = map (\<lambda>(index, step). formatStep index step) (enumerate 0 xs)"

definition logLine :: "run_log \<Rightarrow> string" where
  "logLine logEntry =
     deployId logEntry @ '': '' @ JSON_stringify (JArr (formattedSteps (steps logEntry))) @ [CHR 0x0A]"

definition saveLog_try :: "world \<Rightarrow> run_log \<Rightarrow> server \<Rightarrow> js_error + server" where
  \<comment> \<open>the \<^verbatim>\<open>try\<close> block of \<^verbatim>\<open>saveLog\<close>\<close>
  "saveLog_try w logEntry s =
     (let s1 = ensureLogsDir w s
      in case getLogFilePath_today w s1 of
           (logFilePath, s2) \<Rightarrow> appendFile w logFilePath (logLine logEntry) s2)"

definition saveLog :: "world \<Rightarrow> run_log \<Rightarrow> server \<Rightarrow> js_error + server" where
  \<comment> \<open>\<^verbatim>\<open>try { ... } catch (err) { console.error("Failed to save log:", err) }\<close>. The state
      reached when \<^verbatim>\<open>appendFile\<close> throws is the one after the directory and the clock
      were touched.\<close>
  "saveLog w logEntry s =
     (case saveLog_try w logEntry s of
        Inr s' \<Rightarrow> Inr s'
      | Inl err \<Rightarrow>
          (let s1 = snd (getLogFilePath_today w (ensureLogsDir w s))
           in Inr (s1\<lparr>console := console s1 @ [FailedSaveLog]\<rparr>)))"

subsection \<open>Running a deployment\<close>

definition execCommand :: "world \<Rightarrow> string \<Rightarrow> string \<Rightarrow> server \<Rightarrow> exec_result \<times> server" where
  \<comment> \<open>one call of \<^verbatim>\<open>exec\<close>; the command is recorded as executed\<close>
  "execCommand w cmd cwd s =
     (exec_out w (length (execs s)) cmd cwd, s\<lparr>execs := execs s @ [(cmd, cwd)]\<rparr>)"

text \<open>
  The \<^verbatim>\<open>for\<close> loop of \<^verbatim>\<open>deployApp\<close>, from index \<open>i\<close> over the steps still to run. It
  returns what was thrown out of the loop (\<open>None\<close> when it ran to its end), the array
  \<^verbatim>\<open>log.steps\<close> and the state. Reading \<^verbatim>\<open>step.name\<close> of a \<^verbatim>\<open>null\<close> entry throws a
  \<^verbatim>\<open>TypeError\<close> outside the inner \<^verbatim>\<open>try\<close>.
\<close>

fun deploy_steps ::
  "world \<Rightarrow> string \<Rightarrow> app_config \<Rightarrow> int \<Rightarrow> nat \<Rightarrow> step_config option list \<Rightarrow>
   step_result list \<Rightarrow> server \<Rightarrow> js_error option \<times> step_result list \<times> server"
where
  "deploy_steps w did cfg t0 i [] acc s = (None, acc, s)"
| "deploy_steps w did cfg t0 i (entry # rest) acc s =
     (case entry of
        None \<Rightarrow> (Some (TypeError ''Cannot read properties of null''), acc, s)
      | Some step \<Rightarrow>
          (let stepName = or_else (cfg_name step) (''Step '' @ show_nat (i + 1));
               stepCommand = cfg_command step
           in case Date_now w s of
                (stepStartTime, s1) \<Rightarrow>
                  (case execCommand w stepCommand (cfg_path cfg) s1 of
                     (Resolved out err, s2) \<Rightarrow>
                       (case Date_now w s2 of
                          (t, s3) \<Rightarrow>
                            deploy_steps w did cfg t0 (i + 1) rest
                              (acc @ [\<lparr>order = i + 1, name = stepName, command = stepCommand,
                                       status = ''success'', duration = t - stepStartTime,
                                       step_output = Some (if out \<noteq> [] then slice_last 1000 out else []),
                                       stderr = Some (if err \<noteq> [] then slice_last 500 err else []),
                                       error = None, stdout = None\<rparr>])
                              s3)
                   | (Rejected e err out, s2) \<Rightarrow>
                       (case Date_now w s2 of
                          (t, s3) \<Rightarrow>
                            (Some (ExecError e err out),
                             acc @ [\<lparr>order = i + 1, name = stepName, command = stepCommand,
                                      status = ''error'', duration = t - t0,
                                      step_output = None, stderr = Some err,
                                      error = Some e, stdout = Some out\<rparr>],
                             s3\<lparr>console := console s3 @ [StepFailed did stepName (Some e)]\<rparr>)))))"

definition deployApp_enter ::
  "world \<Rightarrow> string \<Rightarrow> string \<Rightarrow> string \<Rightarrow> app_config \<Rightarrow> server \<Rightarrow> (int \<times> run_log) \<times> server"
where
  \<comment> \<open>\<^verbatim>\<open>deployApp\<close> up to \<^verbatim>\<open>running.add\<close>: the start time, the fresh \<^verbatim>\<open>log\<close> and the slot taken\<close>
  "deployApp_enter w did appName envName cfg s =
     (case Date_now w s of
        (t0, s1) \<Rightarrow>
          (case new_Date_toISOString w s1 of
             (stamp, s2) \<Rightarrow>
               ((t0, \<lparr>deployId = did, app = appName, env = envName, startTime = stamp,
                       run_status = ''in-progress'', path = cfg_path cfg, steps = [],
                       run_duration = None, run_error = None, endTime = None\<rparr>),
                s2\<lparr>running := insert (appName @ ''-'' @ envName) (running s2)\<rparr>)))"

definition deployApp_try ::
  "world \<Rightarrow> string \<Rightarrow> string \<Rightarrow> string \<Rightarrow> app_config \<Rightarrow> int \<Rightarrow> run_log \<Rightarrow> server \<Rightarrow> run_log \<times> server"
where
  \<comment> \<open>the statement \<^verbatim>\<open>try { ... } catch (err) { ... } finally { running.delete(...) }\<close>\<close>
  "deployApp_try w did appName envName cfg t0 lg s =
     (case deploy_steps w did cfg t0 0 (cfg_steps cfg) [] s of
        (thrown, results, s1) \<Rightarrow>
          (case Date_now w s1 of
             (t, s2) \<Rightarrow>
               (let lg1 =
                      (case thrown of
                         None \<Rightarrow>
                           lg\<lparr>steps := results, run_status := ''success'', run_duration := Some (t - t0)\<rparr>
                       | Some err \<Rightarrow>
                           lg\<lparr>steps := results, run_status := ''failed'', run_duration := Some (t - t0),
                              run_error := js_or (err_error err) (err_message err)\<rparr>);
                    s3 =
                      (case thrown of
                         None \<Rightarrow> s2
                       | Some err \<Rightarrow> s2\<lparr>console := console s2 @ [DeploymentFailed did]\<rparr>)
                in (lg1, s3\<lparr>running := running s3 - {appName @ ''-'' @ envName}\<rparr>))))"

definition deployApp ::
  "world \<Rightarrow> string \<Rightarrow> string \<Rightarrow> string \<Rightarrow> app_config \<Rightarrow> server \<Rightarrow> js_error + (run_log \<times> server)"
where
  \<comment> \<open>\<open>Inl\<close> is a rejection of the promise \<^verbatim>\<open>deployApp\<close> returns; \<open>Inr\<close> carries the
      \<^verbatim>\<open>log\<close> object handed to \<^verbatim>\<open>saveLog\<close> and the state afterwards\<close>
  "deployApp w did appName envName cfg s =
     (case deployApp_enter w did appName envName cfg s of
        ((t0, lg), s1) \<Rightarrow>
          (case deployApp_try w did appName envName cfg t0 lg s1 of
             (lg1, s2) \<Rightarrow>
               (case new_Date_toISOString w s2 of
                  (stamp, s3) \<Rightarrow>
                    (let lg2 = lg1\<lparr>endTime := Some stamp\<rparr>
                     in case saveLog w lg2 s3 of
                          Inl err \<Rightarrow> Inl err
                        | Inr s4 \<Rightarrow> Inr (lg2, s4)))))"

text \<open>
  The handler calls \<^verbatim>\<open>deployApp\<close> without \<^verbatim>\<open>await\<close>: the call returns when the run
  reaches its first \<^verbatim>\<open>await\<close>, and the rest of the run goes on in the background. When
  the first entry of \<^verbatim>\<open>config.steps\<close> is a step, this is the \<^verbatim>\<open>await\<close> of its command:
  the clock was read for \<^verbatim>\<open>stepStartTime\<close>, \<^verbatim>\<open>exec\<close> was called, and the slot is held.
  When there is no entry, or the first entry is \<^verbatim>\<open>null\<close>, the \<^verbatim>\<open>try\<close> statement runs to
  its end with no \<^verbatim>\<open>await\<close>, \<^verbatim>\<open>finally\<close> gives the slot back, \<^verbatim>\<open>log.endTime\<close> is read,
  and the call returns at the \<^verbatim>\<open>await\<close> of \<^verbatim>\<open>fs.mkdir\<close> in \<^verbatim>\<open>saveLog\<close>.
\<close>

definition deployApp_sync ::
  "world \<Rightarrow> string \<Rightarrow> string \<Rightarrow> string \<Rightarrow> app_config \<Rightarrow> server \<Rightarrow> server"
where
  \<comment> \<open>the state in which the call \<^verbatim>\<open>deployApp(deployId, appName, env, config)\<close> returns\<close>
  "deployApp_sync w did appName envName cfg s =
     (case deployApp_enter w did appName envName cfg s of
        ((t0, lg), s1) \<Rightarrow>
          (case cfg_steps cfg of
             Some step # rest \<Rightarrow>
               (case Date_now w s1 of
                  (stepStartTime, s2) \<Rightarrow>
                    snd (execCommand w (cfg_command step) (cfg_path cfg) s2))
           | _ \<Rightarrow>
               (case deployApp_try w did appName envName cfg t0 lg s1 of
                  (lg1, s2) \<Rightarrow> snd (new_Date_toISOString w s2))))"

subsection \<open>The request handlers\<close>

text \<open>
  The handlers are given the request fields they read; rate limiting and the bearer token
  check run before them. \<^verbatim>\<open>APPS\<close> maps an app name to its environments: the names are
  the keys the configuration file gives, and a name the object only inherits, such as
  \<^verbatim>\<open>constructor\<close>, is not looked at here.
\<close>

type_synonym apps = "string \<rightharpoonup> (string \<rightharpoonup> app_config)"

datatype deploy_response =
    MissingFields  \<comment> \<open>400, \<^verbatim>\<open>"Missing required fields"\<close>\<close>
  | AppNotFound  \<comment> \<open>400, \<^verbatim>\<open>"App not found"\<close>\<close>
  | EnvNotFound  \<comment> \<open>400, \<^verbatim>\<open>"Environment not found"\<close>\<close>
  | AlreadyRunning  \<comment> \<open>400, \<^verbatim>\<open>"Deployment already running"\<close>\<close>
  | DeploymentStarted string nat  \<comment> \<open>200 with the deployId and the number of steps\<close>

definition post_webhook_deploy ::
  "world \<Rightarrow> apps \<Rightarrow> string option \<Rightarrow> string option \<Rightarrow> server \<Rightarrow> deploy_response \<times> server"
where
  \<comment> \<open>\<^verbatim>\<open>POST /webhook/deploy\<close>. \<^verbatim>\<open>deployApp\<close> is called without \<^verbatim>\<open>await\<close>: the state the
      handler leaves is the one in which that call returns.\<close>
  "post_webhook_deploy w APPS appName envName s =
     (if \<not> truthy appName \<or> \<not> truthy envName then (MissingFields, s)
      else
        (let a = or_else appName []; e = or_else envName []
         in case APPS a of
              None \<Rightarrow> (AppNotFound, s)
            | Some envs \<Rightarrow>
                (case envs e of
                   None \<Rightarrow> (EnvNotFound, s)
                 | Some cfg \<Rightarrow>
                     if a @ ''-'' @ e \<in> running s then (AlreadyRunning, s)
                     else
                       (case Date_now w s of
                          (t, s1) \<Rightarrow>
                            (let did = a @ ''-'' @ e @ ''-'' @ show_int t
                             in case new_Date_toISOString w s1 of
                                  (stamp, s2) \<Rightarrow>
                                    (DeploymentStarted did (length (cfg_steps cfg)),
                                     deployApp_sync w did a e cfg s2))))))"

definition read_logs :: "(string \<Rightarrow> json option) \<Rightarrow> server \<Rightarrow> string \<Rightarrow> log_entry list" where
  \<comment> \<open>\<^verbatim>\<open>try { logs = parseLogFile(await fs.readFile(p, "utf8")) } catch (err) { }\<close> on \<^verbatim>\<open>logs = []\<close>\<close>
  "read_logs P s p = (case readFile s p of Inl err \<Rightarrow> [] | Inr data \<Rightarrow> parseLogFile P data)"

definition get_webhook_deploy_log ::
  "(string \<Rightarrow> json option) \<Rightarrow> world \<Rightarrow> int option \<Rightarrow> string option \<Rightarrow> string option \<Rightarrow>
   string option \<Rightarrow> server \<Rightarrow> (log_entry list \<times> nat) \<times> server"
where
  \<comment> \<open>\<^verbatim>\<open>GET /webhook/deploy/log\<close>. \<open>parsedLimit\<close> is \<^verbatim>\<open>parseInt(req.query.limit)\<close>, \<open>None\<close>
      for \<^verbatim>\<open>NaN\<close>. The answer is the pair of \<^verbatim>\<open>logs\<close> and \<^verbatim>\<open>total\<close>.\<close>
  "get_webhook_deploy_log P w parsedLimit appQ envQ dateQ s =
     (let limit = (case parsedLimit of None \<Rightarrow> 20 | Some n \<Rightarrow> (if n = 0 then 20 else n))
      in case (if truthy dateQ
               then (read_logs P s (path_join_LOGS_DIR w (or_else dateQ [] @ ''.txt'')), s)
               else (case getLogFilePath_today w s of
                       (logFilePath, s1) \<Rightarrow> (read_logs P s1 logFilePath, s1))) of
           (logs0, s') \<Rightarrow>
             (let logs1 = (if truthy appQ
                           then filter (\<lambda>l. str_includes (fst l) (or_else appQ [])) logs0
                           else logs0);
                  logs2 = (if truthy envQ
                           then filter (\<lambda>l. str_includes (fst l) (or_else envQ [])) logs1
                           else logs1)
              in ((slice0 limit logs2, length logs2), s')))"

datatype log_response =
    LogFound log_entry  \<comment> \<open>200 with the entry\<close>
  | LogNotFound  \<comment> \<open>404, \<^verbatim>\<open>"Log not found"\<close>\<close>

definition find_log :: "(string \<Rightarrow> json option) \<Rightarrow> server \<Rightarrow> string \<Rightarrow> string \<Rightarrow> log_entry option" where
  \<comment> \<open>read one file and look for the entry; \<open>None\<close> when the read throws or nothing matches\<close>
  "find_log P s p targetDeployId =
     (case readFile s p of
        Inl err \<Rightarrow> None
      | Inr data \<Rightarrow> find (\<lambda>l. fst l = targetDeployId) (parseLogFile P data))"

fun search_recent ::
  "(string \<Rightarrow> json option) \<Rightarrow> world \<Rightarrow> string \<Rightarrow> nat list \<Rightarrow> server \<Rightarrow> log_response \<times> server"
where
  \<comment> \<open>the loop \<^verbatim>\<open>for (let i = 1; i <= 7; i++)\<close> over the values of \<open>i\<close> still to come\<close>
  "search_recent P w targetDeployId [] s = (LogNotFound, s)"
| "search_recent P w targetDeployId (i # rest) s =
     (case new_Date w s of
        (date, s1) \<Rightarrow>
          (let oldLogFilePath = getLogFilePath (setDate date (getDate date - int i))
           in case find_log P s1 oldLogFilePath targetDeployId of
                Some l \<Rightarrow> (LogFound l, s1)
              | None \<Rightarrow> search_recent P w targetDeployId rest s1))"

definition get_webhook_deploy_log_by_id ::
  "(string \<Rightarrow> json option) \<Rightarrow> world \<Rightarrow> string \<Rightarrow> server \<Rightarrow> log_response \<times> server"
where
  \<comment> \<open>\<^verbatim>\<open>GET /webhook/deploy/log/:deployId\<close>\<close>
  "get_webhook_deploy_log_by_id P w targetDeployId s =
     (case getLogFilePath_today w s of
        (logFilePath, s1) \<Rightarrow>
          (case find_log P s1 logFilePath targetDeployId of
             Some l \<Rightarrow> (LogFound l, s1)
           | None \<Rightarrow> search_recent P w targetDeployId [1..<8] s1))"

section \<open>Notions used in the statements\<close>

definition succeeds :: "world \<Rightarrow> app_config \<Rightarrow> nat \<Rightarrow> step_config \<Rightarrow> bool" where
  \<comment> \<open>the \<open>k\<close>-th call of \<^verbatim>\<open>exec\<close>, made for this step, resolves\<close>
  "succeeds w cfg k st =
     (case exec_out w k (cfg_command st) (cfg_path cfg) of
        Resolved out err \<Rightarrow> True
      | Rejected e err out \<Rightarrow> False)"

definition truncated :: "step_result \<Rightarrow> bool" where
  \<comment> \<open>what the success branch of the loop guarantees of the entry it pushes\<close>
  "truncated r =
     (status r = ''success'' \<longrightarrow>
        stdout r = None
        \<and> (\<exists>out err. step_output r = Some out \<and> length out \<le> 1000
                       \<and> stderr r = Some err \<and> length err \<le> 500))"

text \<open>
  The entries a log file yields: nothing when the file cannot be read, else what
  \<open>parse_line\<close> makes of each non-blank line, the skipped lines left out. The file a query
  names, what makes its \<^verbatim>\<open>date\<close> a plain name, and the filter the query applies.
\<close>

definition partition_entries :: "(string \<Rightarrow> json option) \<Rightarrow> server \<Rightarrow> string \<Rightarrow> log_entry list" where
  "partition_entries P s p =
     (case files s p of
        None \<Rightarrow> []
      | Some content \<Rightarrow>
          List.map_filter (parse_line P)
            (filter (\<lambda>line. js_trim line \<noteq> []) (split_on CHR 0x0A content)))"

definition query_partition :: "world \<Rightarrow> string option \<Rightarrow> server \<Rightarrow> string" where
  "query_partition w dateQ s =
     (case dateQ of
        None \<Rightarrow> getLogFilePath (local_day w (ticks s))
      | Some d \<Rightarrow> (if d = [] then getLogFilePath (local_day w (ticks s)) else d @ ''.txt''))"

definition plain_name :: "string \<Rightarrow> bool" where
  \<comment> \<open>no path separator (\<^verbatim>\<open>/\<close>, and the backslash of Windows) and no null byte\<close>
  "plain_name d = (CHR ''/'' \<notin> set d \<and> CHR 0x5C \<notin> set d \<and> CHR 0x00 \<notin> set d)"

definition matches :: "string option \<Rightarrow> string option \<Rightarrow> log_entry \<Rightarrow> bool" where
  "matches appQ envQ l =
     ((case appQ of None \<Rightarrow> True | Some a \<Rightarrow> a = [] \<or> str_includes (fst l) a)
      \<and> (case envQ of None \<Rightarrow> True | Some e \<Rightarrow> e = [] \<or> str_includes (fst l) e))"

text \<open>
  For the proof that \<open>JSON_parse\<close> reads back what \<open>JSON_stringify\<close> writes: the text after
  a value is empty or starts with a delimiter, and the recursion a value needs is bounded
  by its nesting and the number of its elements.
\<close>

definition delimited :: "string \<Rightarrow> bool" where
  "delimited rest = (case rest of [] \<Rightarrow> True | c # cs \<Rightarrow> c = CHR '','' \<or> c = CHR '']'' \<or> c = CHR ''}'')"

fun fuel :: "json \<Rightarrow> nat"
  and fuel_elems :: "json list \<Rightarrow> nat"
  and fuel_members :: "(string \<times> json) list \<Rightarrow> nat"
where
  "fuel (JArr vs) = Suc (fuel_elems vs)"
| "fuel (JObj ms) = Suc (fuel_members ms)"
| "fuel v = 0"
| "fuel_elems [] = 0"
| "fuel_elems (v # vs) = Suc (fuel v + fuel_elems vs)"
| "fuel_members [] = 0"
| "fuel_members (m # ms) = Suc (fuel (snd m) + fuel_members ms)"

section \<open>Example inputs\<close>

text \<open>
  A world in which every reading of the clock is 100 ms after the one before and falls on
  2024-01-01 (day 19723), the command \<^verbatim>\<open>exit 1\<close> fails, every other command prints
  \<^verbatim>\<open>A\<close>, and the file system accepts every write; a server that has done nothing yet;
  and the definition with the steps \<^verbatim>\<open>echo A\<close>, \<^verbatim>\<open>exit 1\<close>, \<^verbatim>\<open>echo B\<close>.
\<close>

definition example_world :: world where
  "example_world =
     \<lparr>now_ms = (\<lambda>k. int k * 100), local_day = (\<lambda>k. 19723),
      exec_out = (\<lambda>k cmd cwd. if cmd = ''exit 1''
                    then Rejected ''Command failed: exit 1'' ''oops'' ''partial''
                    else Resolved ''A'' []),
      mkdir_ok = True, append_ok = True, dirname = ''/srv/deploy''\<rparr>"

definition idle_server :: server where
  "idle_server =
     \<lparr>ticks = 0, execs = [], running = {}, dir_exists = False, files = Map.empty, console = []\<rparr>"

definition step_echo_A :: step_config where
  "step_echo_A = \<lparr>cfg_name = Some ''first'', cfg_command = ''echo A''\<rparr>"

definition step_exit_1 :: step_config where
  "step_exit_1 = \<lparr>cfg_name = None, cfg_command = ''exit 1''\<rparr>"

definition step_echo_B :: step_config where
  "step_echo_B = \<lparr>cfg_name = Some ''third'', cfg_command = ''echo B''\<rparr>"

definition example_config :: app_config where
  "example_config =
     \<lparr>cfg_path = ''/srv/app'',
      cfg_steps = [Some step_echo_A, Some step_exit_1, Some step_echo_B]\<rparr>"

definition null_config :: app_config where
  \<comment> \<open>a definition whose only entry is \<^verbatim>\<open>null\<close>\<close>
  "null_config = \<lparr>cfg_path = ''/srv/app'', cfg_steps = [None]\<rparr>"

definition passing_config :: app_config where
  "passing_config =
     \<lparr>cfg_path = ''/srv/app'', cfg_steps = [Some step_echo_A, Some step_echo_B]\<rparr>"

text \<open>
  Variants of the example world: one in which every command fails after printing 1001
  characters to stdout and 501 to stderr; one in which neither the directory can be
  made nor the file appended; one in which the day changes to 2024-01-02 after the
  second reading of the clock. And a registry in which two different pairs of app and
  environment join to the same string.
\<close>

definition noisy_world :: world where
  "noisy_world =
     example_world\<lparr>exec_out := (\<lambda>k cmd cwd.
        Rejected ''Command failed'' (replicate 501 CHR ''y'') (replicate 1001 CHR ''x''))\<rparr>"

definition broken_disk_world :: world where
  "broken_disk_world = example_world\<lparr>mkdir_ok := False, append_ok := False\<rparr>"

definition midnight_world :: world where
  "midnight_world = example_world\<lparr>local_day := (\<lambda>k. if k < 2 then 19723 else 19724)\<rparr>"

definition example_apps :: apps where
  "example_apps =
     [''a'' \<mapsto> [''b-c'' \<mapsto> example_config], ''a-b'' \<mapsto> [''c'' \<mapsto> passing_config]]"

text \<open>
  A store with one run logged on 2023-12-31 and one on 2023-12-24, and a store whose file
  for 2024-01-01 has three well-formed lines, one line without a colon and one whose
  JSON is cut short.
\<close>

definition log_line_1 :: string where
  "log_line_1 = ''app-prod-1: []'' @ [CHR 0x0A]"

definition log_line_2 :: string where
  "log_line_2 = ''app-prod-2: []'' @ [CHR 0x0A]"

definition store_server :: server where
  "store_server =
     idle_server\<lparr>dir_exists := True,
       files := [''20231231.txt'' \<mapsto> log_line_1, ''20231224.txt'' \<mapsto> log_line_2]\<rparr>"

definition three_lines :: string where
  "three_lines =
     ''app-prod-1: []'' @ [CHR 0x0A] @ ''no colon here'' @ [CHR 0x0A]
     @ ''app-prod-2: []'' @ [CHR 0x0A] @ ''app-prod-9: [{'' @ [CHR 0x0A]
     @ ''app-prod-3: []'' @ [CHR 0x0A]"

definition three_lines_server :: server where
  "three_lines_server =
     idle_server\<lparr>dir_exists := True, files := [''20240101.txt'' \<mapsto> three_lines]\<rparr>"

text \<open>A finished run record with one step.\<close>

definition example_log :: run_log where
  "example_log =
     \<lparr>deployId = ''app-prod-0'', app = ''app'', env = ''prod'', startTime = 100,
      run_status = ''success'', path = ''/srv/app'',
      steps = [\<lparr>order = 1, name = ''first'', command = ''echo A'', status = ''success'',
                duration = 100, step_output = Some ''A'', stderr = Some [], error = None,
                stdout = None\<rparr>],
      run_duration = Some 300, run_error = None, endTime = Some 400\<rparr>"

lemma deploy_steps_Cons_ok:
  assumes "exec_out w (length (execs s)) (cfg_command st) (cfg_path cfg) = Resolved out err"
  shows "deploy_steps w did cfg t0 i (Some st # rest) acc s =
         deploy_steps w did cfg t0 (Suc i) rest
           (acc @ [\<lparr>order = Suc i, name = or_else (cfg_name st) (''Step '' @ show_nat (Suc i)),
                    command = cfg_command st, status = ''success'',
                    duration = now_ms w (Suc (ticks s)) - now_ms w (ticks s),
                    step_output = Some (if out \<noteq> [] then slice_last 1000 out else []),
                    stderr = Some (if err \<noteq> [] then slice_last 500 err else []),
                    error = None, stdout = None\<rparr>])
           (s\<lparr>execs := execs s @ [(cfg_command st, cfg_path cfg)], ticks := ticks s + 2\<rparr>)"
  using assms by (simp add: Date_now_def execCommand_def Let_def)

lemma deploy_steps_Cons_fail:
  assumes "exec_out w (length (execs s)) (cfg_command st) (cfg_path cfg) = Rejected e err out"
  shows "deploy_steps w did cfg t0 i (Some st # rest) acc s =
         (Some (ExecError e err out),
          acc @ [\<lparr>order = Suc i, name = or_else (cfg_name st) (''Step '' @ show_nat (Suc i)),
                    command = cfg_command st, status = ''error'',
                    duration = now_ms w (Suc (ticks s)) - t0,
                    step_output = None, stderr = Some err, error = Some e, stdout = Some out\<rparr>],
          s\<lparr>execs := execs s @ [(cfg_command st, cfg_path cfg)], ticks := ticks s + 2,
            console := console s @ [StepFailed did (or_else (cfg_name st) (''Step '' @ show_nat (Suc i))) (Some e)]\<rparr>)"
  using assms by (simp add: Date_now_def execCommand_def Let_def)

lemma deploy_steps_Nil [simp]:
  "deploy_steps w did cfg t0 i [] acc s = (None, acc, s)"
  by simp

lemma deploy_steps_Cons_null [simp]:
  "deploy_steps w did cfg t0 i (None # rest) acc s =
   (Some (TypeError ''Cannot read properties of null''), acc, s)"
  by simp

declare deploy_steps.simps(2) [simp del]

lemma deploy_steps_prefix:
  assumes "\<forall>j<length sts. succeeds w cfg (length (execs s) + j) (sts ! j)"
  shows "\<exists>R. deploy_steps w did cfg t0 i (map Some sts @ rest) acc s =
              deploy_steps w did cfg t0 (i + length sts) rest (acc @ R)
                (s\<lparr>execs := execs s @ map (\<lambda>st. (cfg_command st, cfg_path cfg)) sts,
                   ticks := ticks s + 2 * length sts\<rparr>)
            \<and> length R = length sts
            \<and> (\<forall>j<length sts.
                  status (R ! j) = ''success'' \<and> order (R ! j) = i + j + 1
                  \<and> command (R ! j) = cfg_command (sts ! j)
                  \<and> name (R ! j) = or_else (cfg_name (sts ! j)) (''Step '' @ show_nat (i + j + 1))
                  \<and> duration (R ! j) = now_ms w (ticks s + 2 * j + 1) - now_ms w (ticks s + 2 * j))"
  using assms
proof (induction sts arbitrary: i acc s)
  case Nil
  show ?case by simp
next
  case (Cons st sts)
  from Cons.prems have "succeeds w cfg (length (execs s)) st" by auto
  then obtain out err where
    res: "exec_out w (length (execs s)) (cfg_command st) (cfg_path cfg) = Resolved out err"
    by (auto simp: succeeds_def split: exec_result.splits)
  define r0 where "r0 = \<lparr>order = Suc i, name = or_else (cfg_name st) (''Step '' @ show_nat (Suc i)),
                    command = cfg_command st, status = ''success'',
                    duration = now_ms w (Suc (ticks s)) - now_ms w (ticks s),
                    step_output = Some (if out \<noteq> [] then slice_last 1000 out else []),
                    stderr = Some (if err \<noteq> [] then slice_last 500 err else []),
                    error = None, stdout = None\<rparr>"
  define s1 where "s1 = s\<lparr>execs := execs s @ [(cfg_command st, cfg_path cfg)], ticks := ticks s + 2\<rparr>"
  have step: "deploy_steps w did cfg t0 i (map Some (st # sts) @ rest) acc s =
              deploy_steps w did cfg t0 (Suc i) (map Some sts @ rest) (acc @ [r0]) s1"
    using deploy_steps_Cons_ok [OF res] by (simp add: r0_def s1_def)
  have "\<forall>j<length sts. succeeds w cfg (length (execs s1) + j) (sts ! j)"
  proof (intro allI impI)
    fix j assume "j < length sts"
    then have "succeeds w cfg (length (execs s) + Suc j) ((st # sts) ! Suc j)"
      using Cons.prems by auto
    then show "succeeds w cfg (length (execs s1) + j) (sts ! j)" by (simp add: s1_def)
  qed
  from Cons.IH [OF this, of "Suc i" "acc @ [r0]"] obtain R where
    run: "deploy_steps w did cfg t0 (Suc i) (map Some sts @ rest) (acc @ [r0]) s1 =
          deploy_steps w did cfg t0 (Suc i + length sts) rest ((acc @ [r0]) @ R)
            (s1\<lparr>execs := execs s1 @ map (\<lambda>st. (cfg_command st, cfg_path cfg)) sts,
                ticks := ticks s1 + 2 * length sts\<rparr>)"
    and len: "length R = length sts"
    and pt: "\<forall>j<length sts.
                  status (R ! j) = ''success'' \<and> order (R ! j) = Suc i + j + 1
                  \<and> command (R ! j) = cfg_command (sts ! j)
                  \<and> name (R ! j) = or_else (cfg_name (sts ! j)) (''Step '' @ show_nat (Suc i + j + 1))
                  \<and> duration (R ! j) = now_ms w (ticks s1 + 2 * j + 1) - now_ms w (ticks s1 + 2 * j)"
    by blast
  have "deploy_steps w did cfg t0 i (map Some (st # sts) @ rest) acc s =
              deploy_steps w did cfg t0 (i + length (st # sts)) rest (acc @ (r0 # R))
                (s\<lparr>execs := execs s @ map (\<lambda>st. (cfg_command st, cfg_path cfg)) (st # sts),
                   ticks := ticks s + 2 * length (st # sts)\<rparr>)"
    using step run by (simp add: s1_def)
  moreover have "length (r0 # R) = length (st # sts)" using len by simp
  moreover have "\<forall>j<length (st # sts).
                  status ((r0 # R) ! j) = ''success'' \<and> order ((r0 # R) ! j) = i + j + 1
                  \<and> command ((r0 # R) ! j) = cfg_command ((st # sts) ! j)
                  \<and> name ((r0 # R) ! j) = or_else (cfg_name ((st # sts) ! j)) (''Step '' @ show_nat (i + j + 1))
                  \<and> duration ((r0 # R) ! j) = now_ms w (ticks s + 2 * j + 1) - now_ms w (ticks s + 2 * j)"
  proof (intro allI impI)
    fix j assume j: "j < length (st # sts)"
    show "status ((r0 # R) ! j) = ''success'' \<and> order ((r0 # R) ! j) = i + j + 1
                  \<and> command ((r0 # R) ! j) = cfg_command ((st # sts) ! j)
                  \<and> name ((r0 # R) ! j) = or_else (cfg_name ((st # sts) ! j)) (''Step '' @ show_nat (i + j + 1))
                  \<and> duration ((r0 # R) ! j) = now_ms w (ticks s + 2 * j + 1) - now_ms w (ticks s + 2 * j)"
    proof (cases j)
      case 0
      then show ?thesis by (simp add: r0_def)
    next
      case (Suc k)
      with j have "k < length sts" by simp
      with pt show ?thesis using Suc by (simp add: s1_def)
    qed
  qed
  ultimately show ?case by blast
qed


lemma deploy_steps_running:
  "running (snd (snd (deploy_steps w did cfg t0 i xs acc s))) = running s"
  by (induction xs arbitrary: i acc s)
     (simp_all add: deploy_steps.simps Date_now_def execCommand_def Let_def
        split: option.splits exec_result.splits)

lemma saveLog_Inr:
  "\<exists>s'. saveLog w lg s = Inr s' \<and> running s' = running s \<and> execs s' = execs s"
  by (simp add: saveLog_def saveLog_try_def appendFile_def getLogFilePath_today_def new_Date_def
        ensureLogsDir_def Let_def split: sum.splits)

lemma deployApp_result:
  assumes "deploy_steps w did cfg (now_ms w (ticks s)) 0 (cfg_steps cfg) []
             (s\<lparr>ticks := ticks s + 2, running := insert (a @ ''-'' @ e) (running s)\<rparr>) = (thrown, R, s1)"
  shows "\<exists>lg s'. deployApp w did a e cfg s = Inr (lg, s')
           \<and> steps lg = R
           \<and> run_status lg = (case thrown of None \<Rightarrow> ''success'' | Some err \<Rightarrow> ''failed'')
           \<and> run_error lg = (case thrown of None \<Rightarrow> None | Some err \<Rightarrow> js_or (err_error err) (err_message err))
           \<and> execs s' = execs s1
           \<and> running s' = running s - {a @ ''-'' @ e}"
proof -
  have r1: "running s1 = insert (a @ ''-'' @ e) (running s)"
    using deploy_steps_running [of w did cfg "now_ms w (ticks s)" 0 "cfg_steps cfg" "[]"
        "s\<lparr>ticks := ticks s + 2, running := insert (a @ ''-'' @ e) (running s)\<rparr>"] assms
    by simp
  obtain lg1 s2 where t: "deployApp_try w did a e cfg (now_ms w (ticks s))
       \<lparr>deployId = did, app = a, env = e, startTime = now_ms w (Suc (ticks s)),
                       run_status = ''in-progress'', path = cfg_path cfg, steps = [],
                       run_duration = None, run_error = None, endTime = None\<rparr>
       (s\<lparr>ticks := ticks s + 2, running := insert (a @ ''-'' @ e) (running s)\<rparr>) = (lg1, s2)"
    by (cases "deployApp_try w did a e cfg (now_ms w (ticks s))
       \<lparr>deployId = did, app = a, env = e, startTime = now_ms w (Suc (ticks s)),
                       run_status = ''in-progress'', path = cfg_path cfg, steps = [],
                       run_duration = None, run_error = None, endTime = None\<rparr>
       (s\<lparr>ticks := ticks s + 2, running := insert (a @ ''-'' @ e) (running s)\<rparr>)") auto
  have p1: "steps lg1 = R"
    and p2: "run_status lg1 = (case thrown of None \<Rightarrow> ''success'' | Some err \<Rightarrow> ''failed'')"
    and p3: "run_error lg1 = (case thrown of None \<Rightarrow> None | Some err \<Rightarrow> js_or (err_error err) (err_message err))"
    and p4: "execs s2 = execs s1"
    and p5: "running s2 = running s - {a @ ''-'' @ e}"
    using t assms r1
    by (auto simp: deployApp_try_def Date_now_def Let_def split: option.splits)
  obtain s4 where sv: "saveLog w (lg1\<lparr>endTime := Some (now_ms w (ticks s2))\<rparr>) (s2\<lparr>ticks := Suc (ticks s2)\<rparr>) = Inr s4"
    and q1: "running s4 = running s2" and q2: "execs s4 = execs s2"
    using saveLog_Inr [of w "lg1\<lparr>endTime := Some (now_ms w (ticks s2))\<rparr>" "s2\<lparr>ticks := Suc (ticks s2)\<rparr>"]
    by auto
  have "deployApp w did a e cfg s = Inr (lg1\<lparr>endTime := Some (now_ms w (ticks s2))\<rparr>, s4)"
    using t sv
    by (simp add: deployApp_def deployApp_enter_def Date_now_def new_Date_toISOString_def Let_def)
  then show ?thesis using p1 p2 p3 p4 p5 q1 q2 by simp
qed


lemma deploy_steps_extends:
  "\<exists>R'. fst (snd (deploy_steps w did cfg t0 i xs acc s)) = acc @ R'"
proof (induction xs arbitrary: i acc s)
  case Nil
  show ?case by simp
next
  case (Cons x xs)
  show ?case
  proof (cases x)
    case None
    then show ?thesis by simp
  next
    case (Some st)
    show ?thesis
    proof (cases "exec_out w (length (execs s)) (cfg_command st) (cfg_path cfg)")
      case (Resolved out err)
      define r0 where "r0 = \<lparr>order = Suc i, name = or_else (cfg_name st) (''Step '' @ show_nat (Suc i)),
                    command = cfg_command st, status = ''success'',
                    duration = now_ms w (Suc (ticks s)) - now_ms w (ticks s),
                    step_output = Some (if out \<noteq> [] then slice_last 1000 out else []),
                    stderr = Some (if err \<noteq> [] then slice_last 500 err else []),
                    error = None, stdout = None\<rparr>"
      define s1 where "s1 = s\<lparr>execs := execs s @ [(cfg_command st, cfg_path cfg)], ticks := ticks s + 2\<rparr>"
      have step: "deploy_steps w did cfg t0 i (x # xs) acc s =
                  deploy_steps w did cfg t0 (Suc i) xs (acc @ [r0]) s1"
        unfolding Some r0_def s1_def by (rule deploy_steps_Cons_ok [OF Resolved])
      obtain R' where "fst (snd (deploy_steps w did cfg t0 (Suc i) xs (acc @ [r0]) s1)) = (acc @ [r0]) @ R'"
        using Cons.IH by blast
      then have "fst (snd (deploy_steps w did cfg t0 i (x # xs) acc s)) = acc @ (r0 # R')"
        by (simp only: step append_assoc append_Cons append_Nil)
      then show ?thesis by (rule exI)
    next
      case (Rejected m err out)
      show ?thesis
        unfolding Some deploy_steps_Cons_fail [OF Rejected] by simp
    qed
  qed
qed

lemma length_slice_last: "length (slice_last n xs) \<le> n"
  by (simp add: slice_last_def)

lemma deploy_steps_truncated:
  assumes "\<forall>r\<in>set acc. truncated r"
  shows "\<forall>r\<in>set (fst (snd (deploy_steps w did cfg t0 i xs acc s))). truncated r"
  using assms
proof (induction xs arbitrary: i acc s)
  case Nil
  then show ?case by simp
next
  case (Cons x xs)
  show ?case
  proof (cases x)
    case None
    with Cons.prems show ?thesis by simp
  next
    case (Some st)
    show ?thesis
    proof (cases "exec_out w (length (execs s)) (cfg_command st) (cfg_path cfg)")
      case (Resolved out err)
      define r0 where "r0 = \<lparr>order = Suc i, name = or_else (cfg_name st) (''Step '' @ show_nat (Suc i)),
                    command = cfg_command st, status = ''success'',
                    duration = now_ms w (Suc (ticks s)) - now_ms w (ticks s),
                    step_output = Some (if out \<noteq> [] then slice_last 1000 out else []),
                    stderr = Some (if err \<noteq> [] then slice_last 500 err else []),
                    error = None, stdout = None\<rparr>"
      define s1 where "s1 = s\<lparr>execs := execs s @ [(cfg_command st, cfg_path cfg)], ticks := ticks s + 2\<rparr>"
      have step: "deploy_steps w did cfg t0 i (x # xs) acc s =
                  deploy_steps w did cfg t0 (Suc i) xs (acc @ [r0]) s1"
        unfolding Some r0_def s1_def by (rule deploy_steps_Cons_ok [OF Resolved])
      have "truncated r0" by (simp add: truncated_def r0_def length_slice_last)
      with Cons.prems have "\<forall>r\<in>set (acc @ [r0]). truncated r" by simp
      from Cons.IH [OF this] show ?thesis by (simp only: step)
    next
      case (Rejected m err out)
      show ?thesis
        unfolding Some deploy_steps_Cons_fail [OF Rejected] using Cons.prems
        by (simp add: truncated_def)
    qed
  qed
qed

lemma formattedSteps_nth:
  "j < length xs \<Longrightarrow> formattedSteps xs ! j = formatStep j (xs ! j)"
  by (simp add: formattedSteps_def nth_enumerate_eq)

lemma length_formattedSteps [simp]: "length (formattedSteps xs) = length xs"
  by (simp add: formattedSteps_def)

lemma deploy_steps_files:
  "files (snd (snd (deploy_steps w did cfg t0 i xs acc s))) = files s
   \<and> dir_exists (snd (snd (deploy_steps w did cfg t0 i xs acc s))) = dir_exists s"
  by (induction xs arbitrary: i acc s)
     (simp_all add: deploy_steps.simps Date_now_def execCommand_def Let_def
        split: option.splits exec_result.splits)

lemma deploy_steps_fs_flags:
  "deploy_steps (w\<lparr>mkdir_ok := m, append_ok := p\<rparr>) did cfg t0 i xs acc s =
   deploy_steps w did cfg t0 i xs acc s"
  by (induction xs arbitrary: i acc s)
     (simp_all add: deploy_steps.simps Date_now_def execCommand_def Let_def
        split: option.splits exec_result.splits)

lemma saveLog_effect:
  "\<exists>s'. saveLog w lg s = Inr s'
      \<and> ticks s' = Suc (ticks s)
      \<and> running s' = running s
      \<and> (if (dir_exists s \<or> mkdir_ok w) \<and> append_ok w
          then files s' = (files s)(getLogFilePath (local_day w (ticks s)) \<mapsto>
                   (case files s (getLogFilePath (local_day w (ticks s))) of
                      None \<Rightarrow> [] | Some old \<Rightarrow> old) @ logLine lg)
          else files s' = files s \<and> last (console s') = FailedSaveLog)"
  by (simp add: saveLog_def saveLog_try_def appendFile_def getLogFilePath_today_def new_Date_def
        ensureLogsDir_def Let_def)

lemma deployApp_handover:
  assumes "deploy_steps w did cfg (now_ms w (ticks s)) 0 (cfg_steps cfg) []
             (s\<lparr>ticks := ticks s + 2, running := insert (a @ ''-'' @ e) (running s)\<rparr>) = (thrown, R, s1)"
  shows "\<exists>s3 s'. deployApp w did a e cfg s =
             Inr (\<lparr>deployId = did, app = a, env = e, startTime = now_ms w (Suc (ticks s)),
                   run_status = (case thrown of None \<Rightarrow> ''success'' | Some err \<Rightarrow> ''failed''),
                   path = cfg_path cfg, steps = R,
                   run_duration = Some (now_ms w (ticks s1) - now_ms w (ticks s)),
                   run_error = (case thrown of None \<Rightarrow> None
                                | Some err \<Rightarrow> js_or (err_error err) (err_message err)),
                   endTime = Some (now_ms w (Suc (ticks s1)))\<rparr>, s')
           \<and> saveLog w \<lparr>deployId = did, app = a, env = e, startTime = now_ms w (Suc (ticks s)),
                   run_status = (case thrown of None \<Rightarrow> ''success'' | Some err \<Rightarrow> ''failed''),
                   path = cfg_path cfg, steps = R,
                   run_duration = Some (now_ms w (ticks s1) - now_ms w (ticks s)),
                   run_error = (case thrown of None \<Rightarrow> None
                                | Some err \<Rightarrow> js_or (err_error err) (err_message err)),
                   endTime = Some (now_ms w (Suc (ticks s1)))\<rparr> s3 = Inr s'
           \<and> ticks s3 = ticks s1 + 2 \<and> files s3 = files s \<and> dir_exists s3 = dir_exists s"
proof -
  define LG where "LG = \<lparr>deployId = did, app = a, env = e, startTime = now_ms w (Suc (ticks s)),
                   run_status = (case thrown of None \<Rightarrow> ''success'' | Some err \<Rightarrow> ''failed''),
                   path = cfg_path cfg, steps = R,
                   run_duration = Some (now_ms w (ticks s1) - now_ms w (ticks s)),
                   run_error = (case thrown of None \<Rightarrow> None
                                | Some err \<Rightarrow> js_or (err_error err) (err_message err)),
                   endTime = Some (now_ms w (Suc (ticks s1)))\<rparr>"
  define S3 where "S3 = snd (new_Date_toISOString w (snd (deployApp_try w did a e cfg (now_ms w (ticks s))
       \<lparr>deployId = did, app = a, env = e, startTime = now_ms w (Suc (ticks s)),
                       run_status = ''in-progress'', path = cfg_path cfg, steps = [],
                       run_duration = None, run_error = None, endTime = None\<rparr>
       (s\<lparr>ticks := ticks s + 2, running := insert (a @ ''-'' @ e) (running s)\<rparr>))))"
  have f: "files s1 = files s" "dir_exists s1 = dir_exists s"
    using deploy_steps_files [of w did cfg "now_ms w (ticks s)" 0 "cfg_steps cfg" "[]"
        "s\<lparr>ticks := ticks s + 2, running := insert (a @ ''-'' @ e) (running s)\<rparr>"] assms
    by simp_all
  have s3: "ticks S3 = ticks s1 + 2" "files S3 = files s" "dir_exists S3 = dir_exists s"
    using assms f
    by (simp_all add: S3_def deployApp_try_def Date_now_def new_Date_toISOString_def Let_def
        split: option.splits)
  obtain s' where sv: "saveLog w LG S3 = Inr s'"
    using saveLog_effect [of w LG S3] by blast
  have "deployApp w did a e cfg s = Inr (LG, s')"
    using assms sv
    by (simp add: deployApp_def deployApp_enter_def deployApp_try_def Date_now_def
        new_Date_toISOString_def Let_def S3_def LG_def split: option.splits)
  with sv s3 show ?thesis unfolding LG_def by blast
qed

lemma civil_steps: "civil z0 = civil_doe ((z0 + 719468) div 146097) ((z0 + 719468) mod 146097)"
  unfolding civil_def Let_def civil_doe_def civil_yoe_def civil_doy_def civil_md_def
  by (rule refl)

lemma recent_days:
  "civil 19723 = (2024, 1, 1)" "civil 19722 = (2023, 12, 31)" "civil 19721 = (2023, 12, 30)"
  "civil 19720 = (2023, 12, 29)" "civil 19719 = (2023, 12, 28)" "civil 19718 = (2023, 12, 27)"
  "civil 19717 = (2023, 12, 26)" "civil 19716 = (2023, 12, 25)" "civil 19715 = (2023, 12, 24)"
  "civil 19724 = (2024, 1, 2)"
  by (simp_all add: civil_steps civil_doe_def civil_yoe_def civil_doy_def civil_md_def)

lemma recent_paths:
  "getLogFilePath 19723 = ''20240101.txt''" "getLogFilePath 19722 = ''20231231.txt''"
  "getLogFilePath 19721 = ''20231230.txt''" "getLogFilePath 19720 = ''20231229.txt''"
  "getLogFilePath 19719 = ''20231228.txt''" "getLogFilePath 19718 = ''20231227.txt''"
  "getLogFilePath 19717 = ''20231226.txt''" "getLogFilePath 19716 = ''20231225.txt''"
  "getLogFilePath 19715 = ''20231224.txt''" "getLogFilePath 19724 = ''20240102.txt''"
  by (simp_all add: getLogFilePath_def getFullYear_def getMonth_def getDate_def recent_days
      show_int_def show_nat.simps padStart2_def digit_char_def)

lemma example_loop:
  assumes "exec_out w = exec_out example_world"
  shows "deploy_steps w did example_config t0 0 (cfg_steps example_config) [] s =
     (Some (ExecError ''Command failed: exit 1'' ''oops'' ''partial''),
      [\<lparr>order = 1, name = ''first'', command = ''echo A'', status = ''success'',
         duration = now_ms w (Suc (ticks s)) - now_ms w (ticks s),
         step_output = Some ''A'', stderr = Some [], error = None, stdout = None\<rparr>,
       \<lparr>order = 2, name = ''Step 2'', command = ''exit 1'', status = ''error'',
         duration = now_ms w (ticks s + 3) - t0,
         step_output = None, stderr = Some ''oops'', error = Some ''Command failed: exit 1'',
         stdout = Some ''partial''\<rparr>],
      s\<lparr>execs := execs s @ [(''echo A'', ''/srv/app''), (''exit 1'', ''/srv/app'')],
        ticks := ticks s + 4,
        console := console s @ [StepFailed did ''Step 2'' (Some ''Command failed: exit 1'')]\<rparr>)"
  using assms
  by (simp add: deploy_steps.simps example_config_def example_world_def step_echo_A_def
      step_exit_1_def Date_now_def execCommand_def Let_def or_else_def slice_last_def
      show_nat.simps digit_char_def eval_nat_numeral)

lemma noisy_loop:
  "deploy_steps noisy_world did example_config t0 0 (cfg_steps example_config) [] s =
     (Some (ExecError ''Command failed'' (replicate 501 CHR ''y'') (replicate 1001 CHR ''x'')),
      [\<lparr>order = 1, name = ''first'', command = ''echo A'', status = ''error'',
         duration = now_ms noisy_world (Suc (ticks s)) - t0,
         step_output = None, stderr = Some (replicate 501 CHR ''y''),
         error = Some ''Command failed'', stdout = Some (replicate 1001 CHR ''x'')\<rparr>],
      s\<lparr>execs := execs s @ [(''echo A'', ''/srv/app'')],
        ticks := ticks s + 2,
        console := console s @ [StepFailed did ''first'' (Some ''Command failed'')]\<rparr>)"
  by (simp add: deploy_steps.simps example_config_def noisy_world_def example_world_def
      step_echo_A_def Date_now_def execCommand_def Let_def or_else_def)

lemma deploy_steps_orders:
  assumes "\<forall>j<length acc. order (acc ! j) = j + 1" and "i = length acc"
  shows "\<forall>j<length (fst (snd (deploy_steps w did cfg t0 i xs acc s))).
            order (fst (snd (deploy_steps w did cfg t0 i xs acc s)) ! j) = j + 1"
  using assms
proof (induction xs arbitrary: i acc s)
  case Nil
  then show ?case by simp
next
  case (Cons x xs)
  show ?case
  proof (cases x)
    case None
    with Cons.prems show ?thesis by simp
  next
    case (Some st)
    show ?thesis
    proof (cases "exec_out w (length (execs s)) (cfg_command st) (cfg_path cfg)")
      case (Resolved out err)
      define r0 where "r0 = \<lparr>order = Suc i, name = or_else (cfg_name st) (''Step '' @ show_nat (Suc i)),
                    command = cfg_command st, status = ''success'',
                    duration = now_ms w (Suc (ticks s)) - now_ms w (ticks s),
                    step_output = Some (if out \<noteq> [] then slice_last 1000 out else []),
                    stderr = Some (if err \<noteq> [] then slice_last 500 err else []),
                    error = None, stdout = None\<rparr>"
      define s1 where "s1 = s\<lparr>execs := execs s @ [(cfg_command st, cfg_path cfg)], ticks := ticks s + 2\<rparr>"
      have step: "deploy_steps w did cfg t0 i (x # xs) acc s =
                  deploy_steps w did cfg t0 (Suc i) xs (acc @ [r0]) s1"
        unfolding Some r0_def s1_def by (rule deploy_steps_Cons_ok [OF Resolved])
      have "\<forall>j<length (acc @ [r0]). order ((acc @ [r0]) ! j) = j + 1"
        using Cons.prems by (auto simp: nth_append r0_def less_Suc_eq)
      moreover have "Suc i = length (acc @ [r0])" using Cons.prems by simp
      ultimately show ?thesis unfolding step by (rule Cons.IH)
    next
      case (Rejected m err out)
      show ?thesis
        unfolding Some deploy_steps_Cons_fail [OF Rejected] using Cons.prems
        by (auto simp: nth_append less_Suc_eq)
    qed
  qed
qed

lemma deployApp_order:
  assumes "deployApp w did a e cfg s = Inr (lg, s')" and "j < length (steps lg)"
  shows "order (steps lg ! j) = j + 1"
proof -
  obtain thrown R s1 where
    loop: "deploy_steps w did cfg (now_ms w (ticks s)) 0 (cfg_steps cfg) []
             (s\<lparr>ticks := ticks s + 2, running := insert (a @ ''-'' @ e) (running s)\<rparr>) = (thrown, R, s1)"
    using prod_cases3 by blast
  from deployApp_result [OF loop] assms(1) have R: "steps lg = R" by auto
  have "\<forall>j<length R. order (R ! j) = j + 1"
    using deploy_steps_orders [of "[]" 0 w did cfg "now_ms w (ticks s)" "cfg_steps cfg"
        "s\<lparr>ticks := ticks s + 2, running := insert (a @ ''-'' @ e) (running s)\<rparr>"] loop
    by simp
  with R assms(2) show ?thesis by simp
qed

lemma deploy_steps_ticks:
  "ticks s \<le> ticks (snd (snd (deploy_steps w did cfg t0 i xs acc s)))"
proof (induction xs arbitrary: i acc s)
  case Nil
  show ?case by simp
next
  case (Cons x xs)
  show ?case
  proof (cases x)
    case None
    then show ?thesis by simp
  next
    case (Some st)
    show ?thesis
    proof (cases "exec_out w (length (execs s)) (cfg_command st) (cfg_path cfg)")
      case (Resolved out err)
      show ?thesis
        unfolding Some deploy_steps_Cons_ok [OF Resolved]
        by (rule order_trans [OF _ Cons.IH]) simp
    next
      case (Rejected m err out)
      show ?thesis
        unfolding Some deploy_steps_Cons_fail [OF Rejected] by simp
    qed
  qed
qed

section \<open>The claims about a run\<close>



text \<open>
  C5. When every step of the definition succeeds, the run ends with status \<^verbatim>\<open>success\<close>
  and \<^verbatim>\<open>log.steps\<close> has as many entries as the definition has steps.
\<close>

theorem deployApp_all_steps_succeed:
  assumes cfg: "cfg_steps cfg = map Some sts"
    and ok: "\<forall>j<length sts. succeeds w cfg (length (execs s) + j) (sts ! j)"
  shows "\<exists>lg s'. deployApp w did a e cfg s = Inr (lg, s')
           \<and> run_status lg = ''success''
           \<and> length (steps lg) = length (cfg_steps cfg)
           \<and> (\<forall>j<length sts. status (steps lg ! j) = ''success'')
           \<and> run_error lg = None
           \<and> execs s' = execs s @ map (\<lambda>x. (cfg_command x, cfg_path cfg)) sts"
proof -
  define s0 where "s0 = s\<lparr>ticks := ticks s + 2, running := insert (a @ ''-'' @ e) (running s)\<rparr>"
  define t0 where "t0 = now_ms w (ticks s)"
  have ok0: "\<forall>j<length sts. succeeds w cfg (length (execs s0) + j) (sts ! j)"
    using ok by (simp add: s0_def)
  from deploy_steps_prefix [OF ok0, of did t0 0 "[]" "[]"] obtain R where
    run0: "deploy_steps w did cfg t0 0 (map Some sts @ []) [] s0 =
          deploy_steps w did cfg t0 (0 + length sts) ([]) ([] @ R)
            (s0\<lparr>execs := execs s0 @ map (\<lambda>st. (cfg_command st, cfg_path cfg)) sts,
                ticks := ticks s0 + 2 * length sts\<rparr>)"
    and len: "length R = length sts"
    and pt0: "\<forall>j<length sts.
                  status (R ! j) = ''success'' \<and> order (R ! j) = 0 + j + 1
                  \<and> command (R ! j) = cfg_command (sts ! j)
                  \<and> name (R ! j) = or_else (cfg_name (sts ! j)) (''Step '' @ show_nat (0 + j + 1))
                  \<and> duration (R ! j) = now_ms w (ticks s0 + 2 * j + 1) - now_ms w (ticks s0 + 2 * j)"
    by blast
  have pt: "\<forall>j<length sts. status (R ! j) = ''success''
               \<and> duration (R ! j) = now_ms w (ticks s0 + 2 * j + 1) - now_ms w (ticks s0 + 2 * j)"
    using pt0 by simp
  have run: "deploy_steps w did cfg t0 0 (map Some sts) [] s0 =
          (None, R, s0\<lparr>execs := execs s0 @ map (\<lambda>st. (cfg_command st, cfg_path cfg)) sts,
                ticks := ticks s0 + 2 * length sts\<rparr>)"
    using run0 by simp
  have "deploy_steps w did cfg (now_ms w (ticks s)) 0 (cfg_steps cfg) []
             (s\<lparr>ticks := ticks s + 2, running := insert (a @ ''-'' @ e) (running s)\<rparr>)
        = (None, R, s0\<lparr>execs := execs s0 @ map (\<lambda>st. (cfg_command st, cfg_path cfg)) sts,
                ticks := ticks s0 + 2 * length sts\<rparr>)"
    using run by (simp add: cfg s0_def t0_def)
  from deployApp_result [OF this] obtain lg s' where
    d: "deployApp w did a e cfg s = Inr (lg, s')"
    and l: "steps lg = R"
    and st: "run_status lg = ''success''"
    and er: "run_error lg = None"
    and ex: "execs s' = execs (s0\<lparr>execs := execs s0 @ map (\<lambda>st. (cfg_command st, cfg_path cfg)) sts,
                ticks := ticks s0 + 2 * length sts\<rparr>)"
    by auto
  have "execs s' = execs s @ map (\<lambda>x. (cfg_command x, cfg_path cfg)) sts"
    using ex by (simp add: s0_def)
  moreover have "length (steps lg) = length (cfg_steps cfg)" using l len cfg by simp
  moreover have "\<forall>j<length sts. status (steps lg ! j) = ''success''" using l pt by simp
  ultimately show ?thesis using d st er by blast
qed

theorem deployApp_all_steps_succeed_witness:
  "\<exists>lg s'. deployApp example_world ''app-prod-0'' ''app'' ''prod'' passing_config idle_server = Inr (lg, s')
      \<and> run_status lg = ''success''
      \<and> length (steps lg) = 2"
  using deployApp_all_steps_succeed [where cfg = passing_config and sts = "[step_echo_A, step_echo_B]"
      and w = example_world and s = idle_server and did = "''app-prod-0''" and a = "''app''"
      and e = "''prod''"]
  by (auto simp: passing_config_def example_world_def idle_server_def step_echo_A_def
      step_echo_B_def succeeds_def less_Suc_eq)

text \<open>
  C4. Whatever the steps do, \<^verbatim>\<open>deployApp\<close> returns, and the slot of its app and
  environment is free afterwards: the run succeeded, a command failed, or an entry of
  \<^verbatim>\<open>config.steps\<close> was \<^verbatim>\<open>null\<close> and reading it threw. The \<^verbatim>\<open>finally\<close> block removes
  the key, and no other key, from \<^verbatim>\<open>running\<close>.
\<close>

theorem deployApp_releases_slot:
  "\<exists>lg s'. deployApp w did a e cfg s = Inr (lg, s') \<and> a @ ''-'' @ e \<notin> running s'
      \<and> running s' = running s - {a @ ''-'' @ e}"
proof -
  obtain thrown R s1 where
    "deploy_steps w did cfg (now_ms w (ticks s)) 0 (cfg_steps cfg) []
             (s\<lparr>ticks := ticks s + 2, running := insert (a @ ''-'' @ e) (running s)\<rparr>) = (thrown, R, s1)"
    using prod_cases3 by blast
  from deployApp_result [OF this] show ?thesis by auto
qed

theorem deployApp_releases_slot_witness:
  "(\<exists>lg s'. deployApp example_world ''app-prod-0'' ''app'' ''prod'' example_config idle_server = Inr (lg, s')
      \<and> ''app-prod'' \<notin> running s')
   \<and> (\<exists>lg s'. deployApp example_world ''app-prod-0'' ''app'' ''prod'' null_config idle_server = Inr (lg, s')
      \<and> ''app-prod'' \<notin> running s')"
  using deployApp_releases_slot [of example_world "''app-prod-0''" "''app''" "''prod''"
      example_config idle_server]
    deployApp_releases_slot [of example_world "''app-prod-0''" "''app''" "''prod''"
      null_config idle_server]
  by auto

text \<open>
  C9. The clock readings of a run are numbered from the state it starts in: reading
  \<open>ticks s\<close> is \<^verbatim>\<open>startTime\<close>, and the step at index \<open>j\<close> reads \<^verbatim>\<open>stepStartTime\<close> as
  reading \<open>ticks s + 2 * j + 2\<close> and reads the clock again, as reading
  \<open>ticks s + 2 * j + 3\<close>, when its command has returned. The duration recorded for a
  successful step is the difference of its own two readings; the duration recorded for
  the failing step is its second reading minus \<^verbatim>\<open>startTime\<close>, the start of the whole run.
\<close>

theorem step_durations:
  assumes cfg: "cfg_steps cfg = map Some sts @ rest"
    and ok: "\<forall>j<length sts. succeeds w cfg (length (execs s) + j) (sts ! j)"
  shows "\<exists>lg s'. deployApp w did a e cfg s = Inr (lg, s')
           \<and> length sts \<le> length (steps lg)
           \<and> (\<forall>j<length sts.
                 status (steps lg ! j) = ''success''
                 \<and> duration (steps lg ! j) = now_ms w (ticks s + 2 * j + 3) - now_ms w (ticks s + 2 * j + 2))
           \<and> (\<forall>st post msg err out.
                 rest = Some st # post
                 \<and> exec_out w (length (execs s) + length sts) (cfg_command st) (cfg_path cfg) = Rejected msg err out
                 \<longrightarrow> status (steps lg ! length sts) = ''error''
                     \<and> duration (steps lg ! length sts) = now_ms w (ticks s + 2 * length sts + 3) - now_ms w (ticks s))"
proof -
  define s0 where "s0 = s\<lparr>ticks := ticks s + 2, running := insert (a @ ''-'' @ e) (running s)\<rparr>"
  define t0 where "t0 = now_ms w (ticks s)"
  have ok0: "\<forall>j<length sts. succeeds w cfg (length (execs s0) + j) (sts ! j)"
    using ok by (simp add: s0_def)
  define s1 where "s1 = s0\<lparr>execs := execs s0 @ map (\<lambda>st. (cfg_command st, cfg_path cfg)) sts,
                ticks := ticks s0 + 2 * length sts\<rparr>"
  from deploy_steps_prefix [OF ok0, of did t0 0 "rest" "[]"] obtain R where
    run0: "deploy_steps w did cfg t0 0 (map Some sts @ rest) [] s0 =
          deploy_steps w did cfg t0 (0 + length sts) (rest) ([] @ R)
            (s0\<lparr>execs := execs s0 @ map (\<lambda>st. (cfg_command st, cfg_path cfg)) sts,
                ticks := ticks s0 + 2 * length sts\<rparr>)"
    and len: "length R = length sts"
    and pt0: "\<forall>j<length sts.
                  status (R ! j) = ''success'' \<and> order (R ! j) = 0 + j + 1
                  \<and> command (R ! j) = cfg_command (sts ! j)
                  \<and> name (R ! j) = or_else (cfg_name (sts ! j)) (''Step '' @ show_nat (0 + j + 1))
                  \<and> duration (R ! j) = now_ms w (ticks s0 + 2 * j + 1) - now_ms w (ticks s0 + 2 * j)"
    by blast
  have pt: "\<forall>j<length sts. status (R ! j) = ''success''
               \<and> duration (R ! j) = now_ms w (ticks s0 + 2 * j + 1) - now_ms w (ticks s0 + 2 * j)"
    using pt0 by simp
  have run: "deploy_steps w did cfg t0 0 (map Some sts @ rest) [] s0 =
          deploy_steps w did cfg t0 (length sts) rest R s1"
    using run0 by (simp add: s1_def)
  obtain thrown R2 s2 where
    fin: "deploy_steps w did cfg t0 (length sts) rest R s1 = (thrown, R2, s2)"
    using prod_cases3 by blast
  obtain R' where R2: "R2 = R @ R'"
    using deploy_steps_extends [of w did cfg t0 "length sts" rest R s1] fin by auto
  have "deploy_steps w did cfg (now_ms w (ticks s)) 0 (cfg_steps cfg) []
             (s\<lparr>ticks := ticks s + 2, running := insert (a @ ''-'' @ e) (running s)\<rparr>)
        = (thrown, R2, s2)"
    using run fin by (simp add: cfg s0_def t0_def)
  from deployApp_result [OF this] obtain lg s' where
    d: "deployApp w did a e cfg s = Inr (lg, s')" and l: "steps lg = R @ R'"
    using R2 by auto
  have c1: "length sts \<le> length (steps lg)" using l len by simp
  have c2: "\<forall>j<length sts.
                 status (steps lg ! j) = ''success''
                 \<and> duration (steps lg ! j) = now_ms w (ticks s + 2 * j + 3) - now_ms w (ticks s + 2 * j + 2)"
  proof (intro allI impI)
    fix j assume j: "j < length sts"
    then have nth: "steps lg ! j = R ! j" using l len by (simp add: nth_append)
    from pt j nth show "status (steps lg ! j) = ''success''
                 \<and> duration (steps lg ! j) = now_ms w (ticks s + 2 * j + 3) - now_ms w (ticks s + 2 * j + 2)"
      by (simp add: s0_def eval_nat_numeral)
  qed
  have c3: "\<forall>st post msg err out.
                 rest = Some st # post
                 \<and> exec_out w (length (execs s) + length sts) (cfg_command st) (cfg_path cfg) = Rejected msg err out
                 \<longrightarrow> status (steps lg ! length sts) = ''error''
                     \<and> duration (steps lg ! length sts) = now_ms w (ticks s + 2 * length sts + 3) - now_ms w (ticks s)"
  proof (intro allI impI, elim conjE)
    fix st post msg err out
    assume rest: "rest = Some st # post"
      and bad: "exec_out w (length (execs s) + length sts) (cfg_command st) (cfg_path cfg) = Rejected msg err out"
    have bad1: "exec_out w (length (execs s1)) (cfg_command st) (cfg_path cfg) = Rejected msg err out"
      using bad by (simp add: s1_def s0_def)
    have t1: "Suc (ticks s1) = ticks s + 2 * length sts + 3" by (simp add: s1_def s0_def)
    have "R2 = R @ [\<lparr>order = Suc (length sts),
                    name = or_else (cfg_name st) (''Step '' @ show_nat (Suc (length sts))),
                    command = cfg_command st, status = ''error'',
                    duration = now_ms w (Suc (ticks s1)) - t0,
                    step_output = None, stderr = Some err, error = Some msg, stdout = Some out\<rparr>]"
      using deploy_steps_Cons_fail [OF bad1, of did t0 "length sts" post R] fin rest by simp
    then have "R2 ! length sts = \<lparr>order = Suc (length sts),
                    name = or_else (cfg_name st) (''Step '' @ show_nat (Suc (length sts))),
                    command = cfg_command st, status = ''error'',
                    duration = now_ms w (Suc (ticks s1)) - t0,
                    step_output = None, stderr = Some err, error = Some msg, stdout = Some out\<rparr>"
      by (metis len nth_append_length)
    then have "status (R2 ! length sts) = ''error''"
      and "duration (R2 ! length sts) = now_ms w (Suc (ticks s1)) - now_ms w (ticks s)"
      by (simp_all add: t0_def)
    then show "status (steps lg ! length sts) = ''error''
                     \<and> duration (steps lg ! length sts) = now_ms w (ticks s + 2 * length sts + 3) - now_ms w (ticks s)"
      using l R2 len by (simp add: s1_def s0_def eval_nat_numeral nth_append)
  qed
  from d c1 c2 c3 show ?thesis by blast
qed

theorem step_durations_witness:
  "\<exists>lg s'. deployApp example_world ''app-prod-0'' ''app'' ''prod'' example_config idle_server = Inr (lg, s')
      \<and> duration (steps lg ! 0) = 100 \<and> duration (steps lg ! 1) = 500"
proof -
  have cfg: "cfg_steps example_config = map Some [step_echo_A] @ [Some step_exit_1, Some step_echo_B]"
    by (simp add: example_config_def)
  have ok: "\<forall>j<length [step_echo_A].
              succeeds example_world example_config (length (execs idle_server) + j) ([step_echo_A] ! j)"
    by (simp add: succeeds_def example_world_def step_echo_A_def)
  from step_durations [OF cfg ok, of "''app-prod-0''" "''app''" "''prod''"] obtain lg s' where
    d: "deployApp example_world ''app-prod-0'' ''app'' ''prod'' example_config idle_server = Inr (lg, s')"
    and c2: "\<forall>j<length [step_echo_A].
                 status (steps lg ! j) = ''success''
                 \<and> duration (steps lg ! j) =
                     now_ms example_world (ticks idle_server + 2 * j + 3)
                     - now_ms example_world (ticks idle_server + 2 * j + 2)"
    and c3: "\<forall>st post msg err out.
                 [Some step_exit_1, Some step_echo_B] = Some st # post
                 \<and> exec_out example_world (length (execs idle_server) + length [step_echo_A])
                       (cfg_command st) (cfg_path example_config) = Rejected msg err out
                 \<longrightarrow> status (steps lg ! length [step_echo_A]) = ''error''
                     \<and> duration (steps lg ! length [step_echo_A]) =
                         now_ms example_world (ticks idle_server + 2 * length [step_echo_A] + 3)
                         - now_ms example_world (ticks idle_server)"
    by blast
  from c2 have "duration (steps lg ! 0) = 100"
    by (simp add: example_world_def idle_server_def)
  moreover from c3 [rule_format, of step_exit_1 "[Some step_echo_B]" "''Command failed: exit 1''"
      "''oops''" "''partial''"]
  have "duration (steps lg ! 1) = 500"
    by (simp add: example_world_def idle_server_def step_exit_1_def)
  ultimately show ?thesis using d by blast
qed

text \<open>
  Towards C2. For every step that succeeded, the entry written to the log line has an
  \<^verbatim>\<open>output\<close> of at most 1000 characters and a \<^verbatim>\<open>stderr\<close> of at most 500. The entries
  of the line are \<open>formattedSteps (steps lg)\<close>.
\<close>

theorem persisted_success_within_limits:
  assumes run: "deployApp w did a e cfg s = Inr (lg, s')"
    and j: "j < length (steps lg)"
    and ok: "status (steps lg ! j) = ''success''"
  shows "\<exists>out err. jget ''output'' (formattedSteps (steps lg) ! j) = Some (JStr out)
           \<and> length out \<le> 1000
           \<and> jget ''stderr'' (formattedSteps (steps lg) ! j) = Some (JStr err)
           \<and> length err \<le> 500"
proof -
  obtain thrown R s1 where
    loop: "deploy_steps w did cfg (now_ms w (ticks s)) 0 (cfg_steps cfg) []
             (s\<lparr>ticks := ticks s + 2, running := insert (a @ ''-'' @ e) (running s)\<rparr>) = (thrown, R, s1)"
    using prod_cases3 by blast
  from deployApp_result [OF loop] run have R: "steps lg = R" by auto
  have "\<forall>r\<in>set R. truncated r"
    using deploy_steps_truncated [of "[]" w did cfg "now_ms w (ticks s)" 0 "cfg_steps cfg"
        "s\<lparr>ticks := ticks s + 2, running := insert (a @ ''-'' @ e) (running s)\<rparr>"] loop
    by simp
  with R j have "truncated (steps lg ! j)" by simp
  with ok obtain out err where
    o: "step_output (steps lg ! j) = Some out" "length out \<le> 1000"
    and e: "stderr (steps lg ! j) = Some err" "length err \<le> 500"
    and n: "stdout (steps lg ! j) = None"
    by (auto simp: truncated_def)
  have "jget ''output'' (formattedSteps (steps lg) ! j) = Some (JStr (or_else (Some out) []))"
    using j o n by (simp add: formattedSteps_nth formatStep_def js_or_def truthy_def or_else_def)
  moreover have "length (or_else (Some out) []) \<le> 1000" using o by (simp add: or_else_def)
  moreover have "jget ''stderr'' (formattedSteps (steps lg) ! j) = Some (JStr (or_else (Some err) []))"
    using j e by (simp add: formattedSteps_nth formatStep_def)
  moreover have "length (or_else (Some err) []) \<le> 500" using e by (simp add: or_else_def)
  ultimately show ?thesis by blast
qed



theorem persisted_success_within_limits_witness:
  "\<exists>lg s' out err.
      deployApp example_world ''app-prod-0'' ''app'' ''prod'' example_config idle_server = Inr (lg, s')
      \<and> status (steps lg ! 0) = ''success''
      \<and> jget ''output'' (formattedSteps (steps lg) ! 0) = Some (JStr out) \<and> length out \<le> 1000
      \<and> jget ''stderr'' (formattedSteps (steps lg) ! 0) = Some (JStr err) \<and> length err \<le> 500"
proof -
  from deployApp_result [where w = example_world and did = "''app-prod-0''" and a = "''app''"
      and e = "''prod''" and cfg = example_config and s = idle_server, OF example_loop [OF refl]]
  obtain lg s' where
    d: "deployApp example_world ''app-prod-0'' ''app'' ''prod'' example_config idle_server = Inr (lg, s')"
    and l: "length (steps lg) = 2" "status (steps lg ! 0) = ''success''"
    by auto
  from persisted_success_within_limits [OF d, of 0] l d show ?thesis by auto
qed

text \<open>
  C2 does not hold of a failed step. The success branch of the loop keeps the last 1000
  characters of stdout and the last 500 of stderr; the \<^verbatim>\<open>catch\<close> branch keeps what
  \<^verbatim>\<open>exec\<close> captured, whole. In the noisy world the first command fails after printing
  1001 characters to stdout and 501 to stderr, and the entry persisted for it, in the
  line appended to the file of the day, has an \<^verbatim>\<open>output\<close> of 1001 characters and a
  \<^verbatim>\<open>stderr\<close> of 501.
\<close>

theorem failed_step_output_exceeds_limits:
  "\<exists>lg s'.
      deployApp noisy_world ''app-prod-0'' ''app'' ''prod'' example_config idle_server = Inr (lg, s')
      \<and> files s' ''20240101.txt'' = Some (logLine lg)
      \<and> length (steps lg) = 1
      \<and> jget ''output'' (formattedSteps (steps lg) ! 0) = Some (JStr (replicate 1001 CHR ''x''))
      \<and> jget ''stderr'' (formattedSteps (steps lg) ! 0) = Some (JStr (replicate 501 CHR ''y''))
      \<and> length (replicate 1001 CHR ''x'') = 1001 \<and> length (replicate 501 CHR ''y'') = 501"
proof -
  from deployApp_handover [where w = noisy_world and did = "''app-prod-0''" and a = "''app''"
      and e = "''prod''" and cfg = example_config and s = idle_server, OF noisy_loop]
  obtain lg s3 s' where
    d: "deployApp noisy_world ''app-prod-0'' ''app'' ''prod'' example_config idle_server = Inr (lg, s')"
    and sv: "saveLog noisy_world lg s3 = Inr s'"
    and l: "length (steps lg) = 1" "step_output (steps lg ! 0) = None"
      "stdout (steps lg ! 0) = Some (replicate 1001 CHR ''x'')"
      "stderr (steps lg ! 0) = Some (replicate 501 CHR ''y'')"
    and s3: "files s3 = Map.empty" "dir_exists s3 = False"
    by (auto simp: idle_server_def)
  from saveLog_effect [of noisy_world lg s3] sv s3
  have "files s' ''20240101.txt'' = Some (logLine lg)"
    by (simp add: noisy_world_def example_world_def recent_paths)
  moreover have "jget ''output'' (formattedSteps (steps lg) ! 0) = Some (JStr (replicate 1001 CHR ''x''))"
    "jget ''stderr'' (formattedSteps (steps lg) ! 0) = Some (JStr (replicate 501 CHR ''y''))"
    using l by (simp_all add: formattedSteps_nth formatStep_def js_or_def truthy_def or_else_def)
  ultimately show ?thesis using d l by simp
qed

text \<open>
  C8. \<^verbatim>\<open>deployApp\<close> never rejects, and the \<^verbatim>\<open>log\<close> it hands to \<^verbatim>\<open>saveLog\<close>, with its
  status, is the same whether or not the directory can be made and the file appended.
  \<^verbatim>\<open>saveLog\<close> is called in a state \<open>s3\<close> whose files are those the run started with, and
  reads the clock once, as reading \<open>ticks s3\<close>, at least three readings after the one
  kept as \<^verbatim>\<open>startTime\<close>. When the write goes through, the line is appended to the file
  named after the local day of that reading; when it does not, the files are unchanged
  and the last thing printed is \<^verbatim>\<open>"Failed to save log:"\<close>.
\<close>

theorem persistence_failure_is_contained:
  "\<exists>lg s3 s'. deployApp w did a e cfg s = Inr (lg, s')
      \<and> saveLog w lg s3 = Inr s' \<and> files s3 = files s \<and> ticks s' = Suc (ticks s3)
      \<and> startTime lg = now_ms w (ticks s + 1) \<and> ticks s + 4 \<le> ticks s3
      \<and> (\<forall>m p. \<exists>s''. deployApp (w\<lparr>mkdir_ok := m, append_ok := p\<rparr>) did a e cfg s = Inr (lg, s''))
      \<and> (if (dir_exists s \<or> mkdir_ok w) \<and> append_ok w
          then files s' = (files s)(getLogFilePath (local_day w (ticks s3)) \<mapsto>
                   (case files s (getLogFilePath (local_day w (ticks s3))) of
                      None \<Rightarrow> [] | Some old \<Rightarrow> old) @ logLine lg)
          else files s' = files s \<and> last (console s') = FailedSaveLog)"
proof -
  obtain thrown R s1 where
    loop: "deploy_steps w did cfg (now_ms w (ticks s)) 0 (cfg_steps cfg) []
             (s\<lparr>ticks := ticks s + 2, running := insert (a @ ''-'' @ e) (running s)\<rparr>) = (thrown, R, s1)"
    using prod_cases3 by blast
  define lg where "lg = \<lparr>deployId = did, app = a, env = e, startTime = now_ms w (Suc (ticks s)),
                   run_status = (case thrown of None \<Rightarrow> ''success'' | Some err \<Rightarrow> ''failed''),
                   path = cfg_path cfg, steps = R,
                   run_duration = Some (now_ms w (ticks s1) - now_ms w (ticks s)),
                   run_error = (case thrown of None \<Rightarrow> None
                                | Some err \<Rightarrow> js_or (err_error err) (err_message err)),
                   endTime = Some (now_ms w (Suc (ticks s1)))\<rparr>"
  from deployApp_handover [OF loop] obtain s3 s' where
    d: "deployApp w did a e cfg s = Inr (lg, s')"
    and sv: "saveLog w lg s3 = Inr s'"
    and s3: "files s3 = files s" "dir_exists s3 = dir_exists s"
    and t3: "ticks s3 = ticks s1 + 2"
    unfolding lg_def by blast
  have "ticks s + 2 \<le> ticks s1"
    using deploy_steps_ticks [of "s\<lparr>ticks := ticks s + 2, running := insert (a @ ''-'' @ e) (running s)\<rparr>"
        w did cfg "now_ms w (ticks s)" 0 "cfg_steps cfg" "[]"] loop
    by simp
  with t3 have t4: "ticks s + 4 \<le> ticks s3" by simp
  have st: "startTime lg = now_ms w (ticks s + 1)" by (simp add: lg_def)
  have flags: "\<exists>s''. deployApp (w\<lparr>mkdir_ok := m, append_ok := p\<rparr>) did a e cfg s = Inr (lg, s'')" for m p
  proof -
    have "deploy_steps (w\<lparr>mkdir_ok := m, append_ok := p\<rparr>) did cfg
            (now_ms (w\<lparr>mkdir_ok := m, append_ok := p\<rparr>) (ticks s)) 0 (cfg_steps cfg) []
            (s\<lparr>ticks := ticks s + 2, running := insert (a @ ''-'' @ e) (running s)\<rparr>) = (thrown, R, s1)"
      using loop by (simp add: deploy_steps_fs_flags)
    from deployApp_handover [OF this] show ?thesis unfolding lg_def by auto
  qed
  from saveLog_effect [of w lg s3] sv s3
  have eff: "ticks s' = Suc (ticks s3)"
    "if (dir_exists s \<or> mkdir_ok w) \<and> append_ok w
          then files s' = (files s)(getLogFilePath (local_day w (ticks s3)) \<mapsto>
                   (case files s (getLogFilePath (local_day w (ticks s3))) of
                      None \<Rightarrow> [] | Some old \<Rightarrow> old) @ logLine lg)
          else files s' = files s \<and> last (console s') = FailedSaveLog"
    by auto
  from d sv s3 st t4 flags eff show ?thesis by blast
qed

theorem persistence_failure_is_contained_witness:
  "(\<exists>lg s' s''.
      deployApp broken_disk_world ''app-prod-0'' ''app'' ''prod'' example_config idle_server = Inr (lg, s')
      \<and> files s' = Map.empty \<and> last (console s') = FailedSaveLog
      \<and> deployApp example_world ''app-prod-0'' ''app'' ''prod'' example_config idle_server = Inr (lg, s''))
   \<and> (\<exists>lg s'.
      deployApp midnight_world ''app-prod-0'' ''app'' ''prod'' example_config idle_server = Inr (lg, s')
      \<and> startTime lg = now_ms midnight_world 1 \<and> local_day midnight_world 1 = 19723
      \<and> files s' ''20240101.txt'' = None
      \<and> files s' ''20240102.txt'' = Some (logLine lg))"
proof -
  from persistence_failure_is_contained [of broken_disk_world "''app-prod-0''" "''app''" "''prod''"
      example_config idle_server]
  obtain lg s' where
    d: "deployApp broken_disk_world ''app-prod-0'' ''app'' ''prod'' example_config idle_server = Inr (lg, s')"
    and f: "\<forall>m p. \<exists>s''. deployApp (broken_disk_world\<lparr>mkdir_ok := m, append_ok := p\<rparr>)
               ''app-prod-0'' ''app'' ''prod'' example_config idle_server = Inr (lg, s'')"
    and c: "files s' = files idle_server \<and> last (console s') = FailedSaveLog"
    by (auto simp: broken_disk_world_def)
  have "broken_disk_world\<lparr>mkdir_ok := True, append_ok := True\<rparr> = example_world"
    by (simp add: broken_disk_world_def example_world_def)
  with f [rule_format, of True True] obtain s'' where
    "deployApp example_world ''app-prod-0'' ''app'' ''prod'' example_config idle_server = Inr (lg, s'')"
    by auto
  with d c have first: "\<exists>lg s' s''.
      deployApp broken_disk_world ''app-prod-0'' ''app'' ''prod'' example_config idle_server = Inr (lg, s')
      \<and> files s' = Map.empty \<and> last (console s') = FailedSaveLog
      \<and> deployApp example_world ''app-prod-0'' ''app'' ''prod'' example_config idle_server = Inr (lg, s'')"
    by (auto simp: idle_server_def)
  from persistence_failure_is_contained [of midnight_world "''app-prod-0''" "''app''" "''prod''"
      example_config idle_server]
  obtain lg2 s3 s2 where
    all: "deployApp midnight_world ''app-prod-0'' ''app'' ''prod'' example_config idle_server = Inr (lg2, s2)
      \<and> saveLog midnight_world lg2 s3 = Inr s2 \<and> files s3 = files idle_server
      \<and> ticks s2 = Suc (ticks s3)
      \<and> startTime lg2 = now_ms midnight_world (ticks idle_server + 1)
      \<and> ticks idle_server + 4 \<le> ticks s3
      \<and> (\<forall>m p. \<exists>s''. deployApp (midnight_world\<lparr>mkdir_ok := m, append_ok := p\<rparr>)
               ''app-prod-0'' ''app'' ''prod'' example_config idle_server = Inr (lg2, s''))
      \<and> (if (dir_exists idle_server \<or> mkdir_ok midnight_world) \<and> append_ok midnight_world
          then files s2 = (files idle_server)(getLogFilePath (local_day midnight_world (ticks s3)) \<mapsto>
                   (case files idle_server (getLogFilePath (local_day midnight_world (ticks s3))) of
                      None \<Rightarrow> [] | Some old \<Rightarrow> old) @ logLine lg2)
          else files s2 = files idle_server \<and> last (console s2) = FailedSaveLog)"
    by (elim exE) (rule that)
  note d2 = all [THEN conjunct1]
  note st = all [THEN conjunct2, THEN conjunct2, THEN conjunct2, THEN conjunct2, THEN conjunct1]
  note t = all [THEN conjunct2, THEN conjunct2, THEN conjunct2, THEN conjunct2, THEN conjunct2,
      THEN conjunct1]
  note w' = all [THEN conjunct2, THEN conjunct2, THEN conjunct2, THEN conjunct2, THEN conjunct2,
      THEN conjunct2, THEN conjunct2]
  have "(dir_exists idle_server \<or> mkdir_ok midnight_world) \<and> append_ok midnight_world"
    by (simp add: midnight_world_def example_world_def)
  with w' have w: "files s2 = (files idle_server)(getLogFilePath (local_day midnight_world (ticks s3)) \<mapsto>
                   (case files idle_server (getLogFilePath (local_day midnight_world (ticks s3))) of
                      None \<Rightarrow> [] | Some old \<Rightarrow> old) @ logLine lg2)"
    by simp
  from t have "local_day midnight_world (ticks s3) = 19724"
    by (simp add: midnight_world_def)
  with w have "files s2 ''20240101.txt'' = None" "files s2 ''20240102.txt'' = Some (logLine lg2)"
    by (simp_all add: recent_paths idle_server_def)
  moreover have "local_day midnight_world 1 = 19723" by (simp add: midnight_world_def)
  ultimately have second: "\<exists>lg s'.
      deployApp midnight_world ''app-prod-0'' ''app'' ''prod'' example_config idle_server = Inr (lg, s')
      \<and> startTime lg = now_ms midnight_world 1 \<and> local_day midnight_world 1 = 19723
      \<and> files s' ''20240101.txt'' = None
      \<and> files s' ''20240102.txt'' = Some (logLine lg)"
    using d2 st by (auto simp: idle_server_def)
  from first second show ?thesis by (rule conjI)
qed

text \<open>
  C10. The slot is the string \<^verbatim>\<open>appName + "-" + env\<close>. Let two pairs join to the same
  string, the second pair being registered (a trigger for an unknown app or environment
  is rejected before the slot is looked at). Then a trigger for the second pair is
  answered \<^verbatim>\<open>"Deployment already running"\<close>
  \<^item> in the state \<^verbatim>\<open>deployApp\<close> leaves when it has taken the slot for the first pair,
  \<^item> in the state the loop of that run has reached after any number of its steps,
  \<^item> and in every state in which the string of the first pair is in \<^verbatim>\<open>running\<close>,
    which it leaves as it is.

  In a state in which the string is not in \<^verbatim>\<open>running\<close> the trigger is accepted.
\<close>

theorem slot_is_the_joined_string:
  assumes same: "a1 @ ''-'' @ e1 = a2 @ ''-'' @ e2"
    and app: "APPS a2 = Some envs" and env: "envs e2 = Some cfg2"
    and a2: "a2 \<noteq> []" and e2: "e2 \<noteq> []"
  shows "fst (post_webhook_deploy w' APPS (Some a2) (Some e2)
               (snd (deployApp_enter w did a1 e1 cfg1 s))) = AlreadyRunning
         \<and> (\<forall>k. fst (post_webhook_deploy w' APPS (Some a2) (Some e2)
                  (snd (snd (deploy_steps w did cfg1 (fst (fst (deployApp_enter w did a1 e1 cfg1 s))) 0
                               (take k (cfg_steps cfg1)) []
                               (snd (deployApp_enter w did a1 e1 cfg1 s)))))) = AlreadyRunning)
         \<and> (\<forall>t. a1 @ ''-'' @ e1 \<in> running t
               \<longrightarrow> post_webhook_deploy w' APPS (Some a2) (Some e2) t = (AlreadyRunning, t))
         \<and> (\<forall>t. a1 @ ''-'' @ e1 \<notin> running t
               \<longrightarrow> fst (post_webhook_deploy w' APPS (Some a2) (Some e2) t)
                   = DeploymentStarted (a2 @ ''-'' @ e2 @ ''-'' @ show_int (now_ms w' (ticks t)))
                       (length (cfg_steps cfg2)))"
proof -
  have key: "a2 @ ''-'' @ e2 \<in> running (snd (deployApp_enter w did a1 e1 cfg1 s))"
    using same by (simp add: deployApp_enter_def Date_now_def new_Date_toISOString_def)
  have rej: "post_webhook_deploy w' APPS (Some a2) (Some e2) t = (AlreadyRunning, t)"
    if "a2 @ ''-'' @ e2 \<in> running t" for t
    using that app env a2 e2 by (simp add: post_webhook_deploy_def truthy_def or_else_def Let_def)
  have acc: "fst (post_webhook_deploy w' APPS (Some a2) (Some e2) t)
      = DeploymentStarted (a2 @ ''-'' @ e2 @ ''-'' @ show_int (now_ms w' (ticks t)))
          (length (cfg_steps cfg2))"
    if "a2 @ ''-'' @ e2 \<notin> running t" for t
    using that app env a2 e2
    by (simp add: post_webhook_deploy_def truthy_def or_else_def Let_def Date_now_def
        new_Date_toISOString_def)
  have loop: "a2 @ ''-'' @ e2 \<in> running (snd (snd (deploy_steps w did cfg1 t0 0 sts []
                  (snd (deployApp_enter w did a1 e1 cfg1 s)))))" for t0 sts
    using key by (simp add: deploy_steps_running)
  show ?thesis
    apply (intro conjI allI impI)
    subgoal using rej [OF key] by simp
    subgoal using rej [OF loop] by simp
    subgoal using rej same by simp
    subgoal using acc same by simp
    done
qed

theorem slot_is_the_joined_string_witness:
  "(''a'', ''b-c'') \<noteq> (''a-b'', ''c'')
   \<and> ''a'' @ ''-'' @ ''b-c'' = ''a-b'' @ ''-'' @ ''c''
   \<and> fst (post_webhook_deploy example_world example_apps (Some ''a-b'') (Some ''c'')
            (snd (deployApp_enter example_world ''a-b-c-0'' ''a'' ''b-c'' example_config idle_server)))
       = AlreadyRunning
   \<and> fst (post_webhook_deploy example_world example_apps (Some ''a'') (Some ''b-c'') idle_server)
       = DeploymentStarted ''a-b-c-0'' 3
   \<and> fst (post_webhook_deploy example_world example_apps (Some ''a-b'') (Some ''c'')
            (snd (post_webhook_deploy example_world example_apps (Some ''a'') (Some ''b-c'')
                    idle_server)))
       = AlreadyRunning
   \<and> fst (post_webhook_deploy example_world example_apps (Some ''a-b'') (Some ''c'') idle_server)
       = DeploymentStarted ''a-b-c-0'' 2"
proof -
  note inst = slot_is_the_joined_string [where ?a1.0 = "''a''" and ?e1.0 = "''b-c''"
      and ?a2.0 = "''a-b''" and ?e2.0 = "''c''" and APPS = example_apps
      and envs = "[''c'' \<mapsto> passing_config]" and ?cfg2.0 = passing_config
      and w' = example_world and w = example_world and did = "''a-b-c-0''"
      and ?cfg1.0 = example_config and s = idle_server]
  have hyps: "''a'' @ ''-'' @ ''b-c'' = ''a-b'' @ ''-'' @ ''c''"
    "example_apps ''a-b'' = Some [''c'' \<mapsto> passing_config]"
    "[''c'' \<mapsto> passing_config] ''c'' = Some passing_config"
    "''a-b'' \<noteq> []" "''c'' \<noteq> []"
    by (simp_all add: example_apps_def)
  note all = inst [OF hyps]
  have zero: "show_int 0 = ''0''" by (simp add: show_int_def show_nat.simps digit_char_def)
  have first: "fst (post_webhook_deploy example_world example_apps (Some ''a'') (Some ''b-c'')
                     idle_server) = DeploymentStarted ''a-b-c-0'' 3"
    by (simp add: post_webhook_deploy_def truthy_def or_else_def Let_def Date_now_def
        new_Date_toISOString_def example_apps_def example_config_def idle_server_def
        example_world_def zero case_prod_beta)
  have held: "''a'' @ ''-'' @ ''b-c'' \<in> running (snd (post_webhook_deploy example_world example_apps
                  (Some ''a'') (Some ''b-c'') idle_server))"
    by (simp add: post_webhook_deploy_def truthy_def or_else_def Let_def Date_now_def
        new_Date_toISOString_def deployApp_sync_def deployApp_enter_def execCommand_def
        example_apps_def example_config_def idle_server_def case_prod_beta)
  have c1: "fst (post_webhook_deploy example_world example_apps (Some ''a-b'') (Some ''c'')
            (snd (deployApp_enter example_world ''a-b-c-0'' ''a'' ''b-c'' example_config idle_server)))
       = AlreadyRunning"
    using all by (rule conjunct1)
  have c3: "fst (post_webhook_deploy example_world example_apps (Some ''a-b'') (Some ''c'')
            (snd (post_webhook_deploy example_world example_apps (Some ''a'') (Some ''b-c'')
                    idle_server)))
       = AlreadyRunning"
    using all [THEN conjunct2, THEN conjunct2, THEN conjunct1, rule_format, OF held]
    by simp
  have "fst (post_webhook_deploy example_world example_apps (Some ''a-b'') (Some ''c'') idle_server)
       = DeploymentStarted (''a-b'' @ ''-'' @ ''c'' @ ''-'' @ show_int (now_ms example_world (ticks idle_server)))
           (length (cfg_steps passing_config))"
    by (rule all [THEN conjunct2, THEN conjunct2, THEN conjunct2, rule_format])
       (simp add: idle_server_def)
  then have c5: "fst (post_webhook_deploy example_world example_apps (Some ''a-b'') (Some ''c'') idle_server)
       = DeploymentStarted ''a-b-c-0'' 2"
    by (simp add: idle_server_def example_world_def passing_config_def zero)
  show ?thesis
    by (intro conjI c1 c3 c5 first) simp_all
qed

text \<open>
  The state the handler leaves is the one in which the call of \<^verbatim>\<open>deployApp\<close> returns.
  When the first entry of the run is a step, the slot is held in it. A run whose first
  entry is \<^verbatim>\<open>null\<close> has given the slot back by then: the next trigger for the same pair
  is accepted.
\<close>

lemma started_run_holds_slot:
  assumes "APPS a = Some envs" and "envs e = Some cfg" and "cfg_steps cfg = Some st # rest"
    and "post_webhook_deploy w APPS (Some a) (Some e) s = (DeploymentStarted d n, s1)"
  shows "a @ ''-'' @ e \<in> running s1"
proof -
  from assms(4,1,2) obtain did t where s1: "s1 = deployApp_sync w did a e cfg t"
    by (auto simp: post_webhook_deploy_def truthy_def or_else_def Let_def Date_now_def
        new_Date_toISOString_def split: if_splits)
  have "a @ ''-'' @ e \<in> running (deployApp_sync w did a e cfg t)"
    using assms(3)
    by (simp add: deployApp_sync_def deployApp_enter_def Date_now_def new_Date_toISOString_def
        execCommand_def case_prod_beta)
  with s1 show ?thesis by simp
qed

lemma null_entry_frees_slot:
  "running (snd (post_webhook_deploy example_world [''a'' \<mapsto> [''b-c'' \<mapsto> null_config]]
                   (Some ''a'') (Some ''b-c'') idle_server)) = {}"
  by (simp add: post_webhook_deploy_def truthy_def or_else_def Let_def Date_now_def
      new_Date_toISOString_def deployApp_sync_def deployApp_enter_def deployApp_try_def
      null_config_def idle_server_def split: prod.splits)

section \<open>File names\<close>

lemma show_nat_digits: "set (show_nat n) \<subseteq> set ''0123456789''"
proof (induction n rule: show_nat.induct)
  case (1 n)
  have d: "digit_char k \<in> set ''0123456789''" if "k < 10" for k
    unfolding digit_char_def by (rule nth_mem) (use that in simp)
  show ?case
  proof (cases "n < 10")
    case True
    then show ?thesis using d [of n] by (subst show_nat.simps) simp
  next
    case False
    then show ?thesis using 1 d [of "n mod 10"] by (subst show_nat.simps) simp
  qed
qed

lemma show_nat_other: "c \<notin> set ''0123456789'' \<Longrightarrow> c \<notin> set (show_nat n)"
  using show_nat_digits [of n] by blast

lemma show_int_other:
  "c \<notin> set ''0123456789'' \<Longrightarrow> c \<noteq> CHR ''-'' \<Longrightarrow> c \<notin> set (show_int i)"
  using show_nat_other [of c] by (simp add: show_int_def)

lemma getLogFilePath_other:
  assumes "c \<notin> set ''0123456789''" and "c \<noteq> CHR ''-''" and "c \<notin> set ''.txt''"
  shows "c \<notin> set (getLogFilePath date)"
proof -
  have "c \<notin> set (show_int i)" for i using assms(1,2) by (rule show_int_other)
  moreover have "c \<noteq> CHR ''0''" using assms(1) by simp
  ultimately show ?thesis
    using assms(3) by (simp add: getLogFilePath_def Let_def padStart2_def)
qed

lemma getLogFilePath_no_slash [simp]: "CHR ''/'' \<notin> set (getLogFilePath date)"
  by (rule getLogFilePath_other) simp_all

lemma getLogFilePath_no_null [simp]: "CHR 0x00 \<notin> set (getLogFilePath date)"
  by (rule getLogFilePath_other) simp_all

lemma split_on_none: "c \<notin> set xs \<Longrightarrow> split_on c xs = [xs]"
  by (induction xs) auto

lemma path_join_plain:
  assumes "CHR ''/'' \<notin> set file" and "4 \<le> length file"
  shows "path_join_LOGS_DIR w file = file"
proof -
  from assms(2) have "file \<noteq> []" "file \<noteq> ''.''" "file \<noteq> ''..''" by auto
  then show ?thesis
    using assms(1) by (simp add: path_join_LOGS_DIR_def split_on_none)
qed

text \<open>
  \<^verbatim>\<open>path.join(LOGS_DIR, name)\<close> for the name \<open>getLogFilePath\<close> makes is the file of this
  name in \<^verbatim>\<open>LOGS_DIR\<close>, and so is \<^verbatim>\<open>path.join(LOGS_DIR, `${date}.txt`)\<close> for a date
  without \<^verbatim>\<open>/\<close>.
\<close>

lemma getLogFilePath_name: "path_join_LOGS_DIR w (getLogFilePath date) = getLogFilePath date"
  by (rule path_join_plain) (simp, simp add: getLogFilePath_def Let_def)

lemma date_file_name:
  "CHR ''/'' \<notin> set date \<Longrightarrow> path_join_LOGS_DIR w (date @ ''.txt'') = date @ ''.txt''"
  by (rule path_join_plain) simp_all

section \<open>Reading the log files\<close>

lemma read_logs_entries:
  "CHR 0x00 \<notin> set p \<Longrightarrow> read_logs P s p = partition_entries P s p"
  by (simp add: read_logs_def readFile_def partition_entries_def parseLogFile_def
      split: option.splits)

lemma find_log_entries:
  "CHR 0x00 \<notin> set p \<Longrightarrow> find_log P s p t = find (\<lambda>l. fst l = t) (partition_entries P s p)"
  by (simp add: find_log_def readFile_def partition_entries_def parseLogFile_def
      split: option.splits)

lemma partition_entries_ticks [simp]:
  "partition_entries P (s\<lparr>ticks := n\<rparr>) p = partition_entries P s p"
  by (simp add: partition_entries_def)

lemma find_app:
  "find Q (xs @ ys) = (case find Q xs of Some x \<Rightarrow> Some x | None \<Rightarrow> find Q ys)"
  by (induction xs) simp_all

lemma setDate_back: "setDate d (getDate d - i) = d - i"
  by (simp add: setDate_def)

lemma search_recent_eq:
  "fst (search_recent P w t ks s) =
     (case find (\<lambda>l. fst l = t)
             (concat (map (\<lambda>j. partition_entries P s
                              (getLogFilePath (local_day w (ticks s + j) - int (ks ! j))))
                        [0..<length ks])) of
        Some l \<Rightarrow> LogFound l
      | None \<Rightarrow> LogNotFound)"
proof (induction ks arbitrary: s)
  case Nil
  show ?case by simp
next
  case (Cons i ks)
  define s1 where "s1 = s\<lparr>ticks := Suc (ticks s)\<rparr>"
  define p0 where "p0 = getLogFilePath (local_day w (ticks s) - int i)"
  have same: "partition_entries P s1 p = partition_entries P s p" for p
    by (simp add: s1_def)
  have step: "search_recent P w t (i # ks) s =
        (case find (\<lambda>l. fst l = t) (partition_entries P s p0) of
           Some l \<Rightarrow> (LogFound l, s1)
         | None \<Rightarrow> search_recent P w t ks s1)"
    unfolding s1_def p0_def
    by (simp add: new_Date_def setDate_back find_log_entries Let_def)
  have rest: "map (\<lambda>j. partition_entries P s
                    (getLogFilePath (local_day w (ticks s + j) - int ((i # ks) ! j))))
                [0..<length (i # ks)]
              = partition_entries P s p0
                # map (\<lambda>j. partition_entries P s1
                    (getLogFilePath (local_day w (ticks s1 + j) - int (ks ! j))))
                    [0..<length ks]"
    by (simp add: map_upt_Suc s1_def p0_def del: upt_Suc)
  show ?case
    unfolding rest step
    by (simp add: find_app Cons.IH split: option.splits)
qed

lemma findById_first_match:
  "fst (get_webhook_deploy_log_by_id P w target s) =
     (case find (\<lambda>l. fst l = target)
             (concat (map (\<lambda>k. partition_entries P s
                              (getLogFilePath (local_day w (ticks s + k) - int k)))
                        [0..<8])) of
        Some l \<Rightarrow> LogFound l
      | None \<Rightarrow> LogNotFound)"
proof -
  define s1 where "s1 = s\<lparr>ticks := Suc (ticks s)\<rparr>"
  define g where "g = (\<lambda>k. partition_entries P s (getLogFilePath (local_day w (ticks s + k) - int k)))"
  have same: "partition_entries P s1 p = partition_entries P s p" for p
    by (simp add: s1_def)
  have top: "fst (get_webhook_deploy_log_by_id P w target s) =
        (case find (\<lambda>l. fst l = target) (g 0) of
           Some l \<Rightarrow> LogFound l
         | None \<Rightarrow> fst (search_recent P w target [1..<8] s1))"
    unfolding s1_def g_def
    by (simp add: get_webhook_deploy_log_by_id_def getLogFilePath_today_def new_Date_def
        find_log_entries split: option.splits)
  have "map (\<lambda>j. partition_entries P s1
                (getLogFilePath (local_day w (ticks s1 + j) - int ([1..<8] ! j))))
            [0..<length [1..<8]]
        = map (\<lambda>j. g (Suc j)) [0..<7]"
    by (rule map_cong) (simp_all add: s1_def g_def)
  then have rec: "fst (search_recent P w target [1..<8] s1) =
        (case find (\<lambda>l. fst l = target) (concat (map (\<lambda>j. g (Suc j)) [0..<7])) of
           Some l \<Rightarrow> LogFound l
         | None \<Rightarrow> LogNotFound)"
    by (simp only: search_recent_eq)
  have "map g [0..<8] = g 0 # map (\<lambda>j. g (Suc j)) [0..<7]"
    using map_upt_Suc [of g 7] by simp
  then show ?thesis
    unfolding top rec g_def [symmetric]
    by (simp add: find_app split: option.splits)
qed


lemma find_concat_None:
  "(\<And>xs. xs \<in> set xss \<Longrightarrow> find Q xs = None) \<Longrightarrow> find Q (concat xss) = None"
  by (induction xss) (simp_all add: find_app)

lemma log_lines_parsed:
  "List.map_filter (parse_line JSON_parse)
     (filter (\<lambda>line. js_trim line \<noteq> []) (split_on CHR 0x0A log_line_1))
   = [(''app-prod-1'', JArr [])]"
  "List.map_filter (parse_line JSON_parse)
     (filter (\<lambda>line. js_trim line \<noteq> []) (split_on CHR 0x0A log_line_2))
   = [(''app-prod-2'', JArr [])]"
  by code_simp+

lemma store_partitions:
  "partition_entries JSON_parse store_server ''20240101.txt'' = []"
  "partition_entries JSON_parse store_server ''20231231.txt'' = [(''app-prod-1'', JArr [])]"
  "partition_entries JSON_parse store_server ''20231230.txt'' = []"
  "partition_entries JSON_parse store_server ''20231229.txt'' = []"
  "partition_entries JSON_parse store_server ''20231228.txt'' = []"
  "partition_entries JSON_parse store_server ''20231227.txt'' = []"
  "partition_entries JSON_parse store_server ''20231226.txt'' = []"
  "partition_entries JSON_parse store_server ''20231225.txt'' = []"
  "partition_entries JSON_parse store_server ''20231224.txt'' = [(''app-prod-2'', JArr [])]"
  by (simp_all add: partition_entries_def store_server_def log_lines_parsed)

lemma less_8_cases:
  "k < 8 \<Longrightarrow> k = 0 \<or> k = 1 \<or> k = 2 \<or> k = 3 \<or> k = 4 \<or> k = 5 \<or> k = 6 \<or> k = (7::nat)"
  by arith

lemma query_eq:
  assumes plain: "\<forall>d. dateQ = Some d \<longrightarrow> plain_name d"
  shows "fst (get_webhook_deploy_log P w lim appQ envQ dateQ s) =
     (slice0 (case lim of None \<Rightarrow> 20 | Some n \<Rightarrow> (if n = 0 then 20 else n))
        (filter (matches appQ envQ) (partition_entries P s (query_partition w dateQ s))),
      length (filter (matches appQ envQ) (partition_entries P s (query_partition w dateQ s))))"
proof -
  have named: "read_logs P s (path_join_LOGS_DIR w (d @ ''.txt''))
      = partition_entries P s (d @ ''.txt'')" if "dateQ = Some d" for d
  proof -
    from plain that have "CHR ''/'' \<notin> set d" "CHR 0x00 \<notin> set d" by (simp_all add: plain_name_def)
    then show ?thesis by (simp add: date_file_name read_logs_entries)
  qed
  have part: "(if truthy dateQ
               then (read_logs P s (path_join_LOGS_DIR w (or_else dateQ [] @ ''.txt'')), s)
               else (case getLogFilePath_today w s of
                       (logFilePath, s1) \<Rightarrow> (read_logs P s1 logFilePath, s1)))
        = (partition_entries P s (query_partition w dateQ s),
           if truthy dateQ then s else s\<lparr>ticks := Suc (ticks s)\<rparr>)"
    using named
    by (simp add: truthy_def or_else_def query_partition_def read_logs_entries
        getLogFilePath_today_def new_Date_def split: option.splits)
  have flt: "(if truthy envQ
              then filter (\<lambda>l. str_includes (fst l) (or_else envQ []))
                     (if truthy appQ then filter (\<lambda>l. str_includes (fst l) (or_else appQ [])) xs else xs)
              else (if truthy appQ then filter (\<lambda>l. str_includes (fst l) (or_else appQ [])) xs else xs))
        = filter (matches appQ envQ) xs" for xs
    by (auto simp: truthy_def or_else_def matches_def split: option.splits intro: filter_cong)
  show ?thesis
    unfolding get_webhook_deploy_log_def part
    by (simp add: Let_def flt)
qed

lemma three_lines_parsed:
  "List.map_filter (parse_line JSON_parse)
     (filter (\<lambda>line. js_trim line \<noteq> []) (split_on CHR 0x0A three_lines))
   = [(''app-prod-1'', JArr []), (''app-prod-2'', JArr []), (''app-prod-3'', JArr [])]"
  by code_simp

lemma three_lines_partition:
  "partition_entries JSON_parse three_lines_server (query_partition example_world (Some ''20240101'') three_lines_server)
   = [(''app-prod-1'', JArr []), (''app-prod-2'', JArr []), (''app-prod-3'', JArr [])]"
  by (simp add: partition_entries_def query_partition_def three_lines_server_def three_lines_parsed)

section \<open>The claims about the log queries\<close>

text \<open>
  C6. The handler of \<^verbatim>\<open>GET /webhook/deploy/log/:deployId\<close> probes eight files: the one
  of the day read from the clock, then, for \<open>k\<close> from 1 to 7, the one \<open>k\<close> days before
  the day read at that probe. It answers with the first entry, in this order of files and
  in the order of lines within a file, whose deployId equals the target, and with 404
  when there is none. While the clock stays on one day \<open>today\<close>: an id found in the file of
  \<open>today - 1\<close> and not in today's is returned, and an id in none of the files of
  \<open>today\<close> down to \<open>today - 7\<close> is not found, whatever the file of \<open>today - 8\<close> holds.
\<close>

theorem findById_window:
  "fst (get_webhook_deploy_log_by_id P w target s) =
     (case find (\<lambda>l. fst l = target)
             (concat (map (\<lambda>k. partition_entries P s
                              (getLogFilePath (local_day w (ticks s + k) - int k)))
                        [0..<8])) of
        Some l \<Rightarrow> LogFound l
      | None \<Rightarrow> LogNotFound)
   \<and> (\<forall>today l.
         (\<forall>k<8. local_day w (ticks s + k) = today)
         \<and> find (\<lambda>l. fst l = target) (partition_entries P s (getLogFilePath today)) = None
         \<and> find (\<lambda>l. fst l = target) (partition_entries P s (getLogFilePath (today - 1))) = Some l
         \<longrightarrow> fst (get_webhook_deploy_log_by_id P w target s) = LogFound l)
   \<and> (\<forall>today.
         (\<forall>k<8. local_day w (ticks s + k) = today)
         \<and> (\<forall>k<8. find (\<lambda>l. fst l = target)
                      (partition_entries P s (getLogFilePath (today - int k))) = None)
         \<longrightarrow> fst (get_webhook_deploy_log_by_id P w target s) = LogNotFound)"
proof (intro conjI allI impI)
  show "fst (get_webhook_deploy_log_by_id P w target s) =
     (case find (\<lambda>l. fst l = target)
             (concat (map (\<lambda>k. partition_entries P s
                              (getLogFilePath (local_day w (ticks s + k) - int k)))
                        [0..<8])) of
        Some l \<Rightarrow> LogFound l
      | None \<Rightarrow> LogNotFound)"
    by (rule findById_first_match)
next
  fix today l
  assume h: "(\<forall>k<8. local_day w (ticks s + k) = today)
         \<and> find (\<lambda>l. fst l = target) (partition_entries P s (getLogFilePath today)) = None
         \<and> find (\<lambda>l. fst l = target) (partition_entries P s (getLogFilePath (today - 1))) = Some l"
  then have d: "local_day w (ticks s + k) = today" if "k < 8" for k
    using that by blast
  have d0: "local_day w (ticks s + 0) = today" and d1: "local_day w (ticks s + 1) = today"
    by (rule d, simp)+
  have "[0..<8::nat] = 0 # [Suc 0..<8]" by (rule upt_conv_Cons) simp
  also have "[Suc 0..<8::nat] = Suc 0 # [Suc (Suc 0)..<8]" by (rule upt_conv_Cons) simp
  finally have split: "[0..<8::nat] = 0 # Suc 0 # [Suc (Suc 0)..<8]" .
  show "fst (get_webhook_deploy_log_by_id P w target s) = LogFound l"
    unfolding findById_first_match split using h d0 d1
    by (simp add: find_app)
next
  fix today
  assume h: "(\<forall>k<8. local_day w (ticks s + k) = today)
         \<and> (\<forall>k<8. find (\<lambda>l. fst l = target)
                      (partition_entries P s (getLogFilePath (today - int k))) = None)"
  have "find (\<lambda>l. fst l = target)
             (concat (map (\<lambda>k. partition_entries P s
                              (getLogFilePath (local_day w (ticks s + k) - int k)))
                        [0..<8])) = None"
    by (rule find_concat_None) (use h in auto)
  then show "fst (get_webhook_deploy_log_by_id P w target s) = LogNotFound"
    by (simp add: findById_first_match)
qed

theorem findById_window_witness:
  "fst (get_webhook_deploy_log_by_id JSON_parse example_world ''app-prod-1'' store_server)
     = LogFound (''app-prod-1'', JArr [])
   \<and> partition_entries JSON_parse store_server (getLogFilePath (19723 - 8))
     = [(''app-prod-2'', JArr [])]
   \<and> fst (get_webhook_deploy_log_by_id JSON_parse example_world ''app-prod-2'' store_server)
     = LogNotFound"
proof -
  have days: "\<forall>k<8. local_day example_world (ticks store_server + k) = 19723"
    by (simp add: example_world_def)
  have today: "partition_entries JSON_parse store_server (getLogFilePath 19723) = []"
    by (simp add: recent_paths store_partitions)
  have yesterday: "partition_entries JSON_parse store_server (getLogFilePath (19723 - 1))
      = [(''app-prod-1'', JArr [])]"
    by (simp add: recent_paths store_partitions)
  have old: "partition_entries JSON_parse store_server (getLogFilePath (19723 - 8))
      = [(''app-prod-2'', JArr [])]"
    by (simp add: recent_paths store_partitions)
  have none: "\<forall>k<8. find (\<lambda>l. fst l = ''app-prod-2'')
                 (partition_entries JSON_parse store_server (getLogFilePath (19723 - int k))) = None"
  proof (intro allI impI)
    fix k :: nat assume "k < 8"
    from less_8_cases [OF this]
    show "find (\<lambda>l. fst l = ''app-prod-2'')
                 (partition_entries JSON_parse store_server (getLogFilePath (19723 - int k))) = None"
      by (elim disjE)
         (simp_all add: recent_paths store_partitions)
  qed
  note inst = findById_window [of JSON_parse example_world _ store_server]
  have "fst (get_webhook_deploy_log_by_id JSON_parse example_world ''app-prod-1'' store_server)
     = LogFound (''app-prod-1'', JArr [])"
    using inst [of "''app-prod-1''", THEN conjunct2, THEN conjunct1, rule_format,
        of 19723 "(''app-prod-1'', JArr [])"] days today yesterday
    by simp
  moreover have "fst (get_webhook_deploy_log_by_id JSON_parse example_world ''app-prod-2'' store_server)
     = LogNotFound"
    using inst [of "''app-prod-2''", THEN conjunct2, THEN conjunct2, rule_format, of 19723] days none
    by blast
  ultimately show ?thesis using old by simp
qed


text \<open>
  C7, as amended. The \<^verbatim>\<open>date\<close> parameter, when given, is a plain name: it has no path
  separator and no null byte, so that \<^verbatim>\<open>path.join(LOGS_DIR, `${date}.txt`)\<close> is the file
  \<^verbatim>\<open>date.txt\<close> in the \<^verbatim>\<open>logs\<close> directory. Then the handler of
  \<^verbatim>\<open>GET /webhook/deploy/log\<close> reads one file, that of the \<^verbatim>\<open>date\<close> parameter when it
  is given and not empty and today's otherwise; lines that do not parse are left out;
  \<^verbatim>\<open>total\<close> counts the entries whose deployId contains the \<^verbatim>\<open>app\<close> and \<^verbatim>\<open>env\<close>
  parameters; a missing file gives no entries and total 0. For a positive limit \<open>n\<close> the
  first \<open>n\<close> of these entries are returned. A limit that is missing, not a number or 0 is
  replaced by 20.
\<close>

theorem query_one_partition:
  assumes plain: "\<forall>d. dateQ = Some d \<longrightarrow> plain_name d"
  shows "snd (fst (get_webhook_deploy_log P w lim appQ envQ dateQ s)) =
      length (filter (matches appQ envQ) (partition_entries P s (query_partition w dateQ s)))
   \<and> (\<forall>n. lim = Some n \<and> 0 < n \<longrightarrow>
         fst (fst (get_webhook_deploy_log P w lim appQ envQ dateQ s)) =
           take (nat n) (filter (matches appQ envQ) (partition_entries P s (query_partition w dateQ s))))
   \<and> (lim = None \<or> lim = Some 0 \<longrightarrow>
         fst (fst (get_webhook_deploy_log P w lim appQ envQ dateQ s)) =
           take 20 (filter (matches appQ envQ) (partition_entries P s (query_partition w dateQ s))))
   \<and> (files s (query_partition w dateQ s) = None \<longrightarrow>
         fst (get_webhook_deploy_log P w lim appQ envQ dateQ s) = ([], 0))"
  by (auto simp: query_eq [OF plain] slice0_def partition_entries_def)

theorem query_one_partition_witness:
  "plain_name ''20240101''
   \<and> fst (get_webhook_deploy_log JSON_parse example_world (Some 1) None None (Some ''20240101'')
          three_lines_server)
   = ([(''app-prod-1'', JArr [])], 3)
   \<and> fst (get_webhook_deploy_log JSON_parse example_world (Some 1) (Some ''prod-2'') None
          (Some ''20240101'') three_lines_server)
   = ([(''app-prod-2'', JArr [])], 1)
   \<and> fst (get_webhook_deploy_log JSON_parse example_world None None None (Some ''20231201'')
          three_lines_server)
   = ([], 0)"
proof -
  have p1: "plain_name ''20240101''" by (simp add: plain_name_def)
  then have plain1: "\<forall>d. Some ''20240101'' = Some d \<longrightarrow> plain_name d" by simp
  have plain2: "\<forall>d. Some ''20231201'' = Some d \<longrightarrow> plain_name d" by (simp add: plain_name_def)
  note inst = query_one_partition [where dateQ = "Some ''20240101''" and P = JSON_parse
      and w = example_world and envQ = None and s = three_lines_server, OF plain1]
  have a: "fst (get_webhook_deploy_log JSON_parse example_world (Some 1) None None (Some ''20240101'')
          three_lines_server) = ([(''app-prod-1'', JArr [])], 3)"
    using inst [where lim = "Some 1" and appQ = None]
    by (simp add: three_lines_partition matches_def prod_eq_iff)
  have b: "fst (get_webhook_deploy_log JSON_parse example_world (Some 1) (Some ''prod-2'') None
          (Some ''20240101'') three_lines_server) = ([(''app-prod-2'', JArr [])], 1)"
    using inst [where lim = "Some 1" and appQ = "Some ''prod-2''"]
    by (simp add: three_lines_partition matches_def prod_eq_iff)
  have "files three_lines_server (query_partition example_world (Some ''20231201'') three_lines_server) = None"
    by (simp add: query_partition_def three_lines_server_def)
  with query_one_partition [where dateQ = "Some ''20231201''" and P = JSON_parse
      and w = example_world and lim = None and appQ = None and envQ = None
      and s = three_lines_server, OF plain2]
  have c: "fst (get_webhook_deploy_log JSON_parse example_world None None None (Some ''20231201'')
          three_lines_server) = ([], 0)"
    by blast
  from p1 a b c show ?thesis by simp
qed

text \<open>
  C7 as stated fails for the limit 0: against a file with three matching lines the
  handler returns all three.
\<close>

theorem limit_zero_returns_records:
  "fst (get_webhook_deploy_log JSON_parse example_world (Some 0) None None (Some ''20240101'')
          three_lines_server)
   = ([(''app-prod-1'', JArr []), (''app-prod-2'', JArr []), (''app-prod-3'', JArr [])], 3)"
  by (simp add: query_eq plain_name_def three_lines_partition matches_def slice0_def)

text \<open>
  A \<^verbatim>\<open>date\<close> with path segments is normalised by \<^verbatim>\<open>path.join\<close>: with \<^verbatim>\<open>__dirname\<close>
  \<^verbatim>\<open>/srv/deploy\<close>, the dates \<^verbatim>\<open>./20240101\<close> and \<^verbatim>\<open>../logs/20240101\<close> name the file
  \<^verbatim>\<open>20240101.txt\<close> of the \<^verbatim>\<open>logs\<close> directory, and \<^verbatim>\<open>../20240101\<close> names a file outside
  it.
\<close>

lemma path_like_dates:
  "path_join_LOGS_DIR example_world (''./20240101'' @ ''.txt'') = ''20240101.txt''"
  "path_join_LOGS_DIR example_world (''../logs/20240101'' @ ''.txt'') = ''20240101.txt''"
  "path_join_LOGS_DIR example_world (''../20240101'' @ ''.txt'') = ''/srv/deploy/20240101.txt''"
  by (simp_all add: path_join_LOGS_DIR_def LOGS_DIR_def absolute_def example_world_def)

lemma path_like_date_query:
  "fst (get_webhook_deploy_log JSON_parse example_world (Some 1) None None (Some ''./20240101'')
          three_lines_server)
   = ([(''app-prod-1'', JArr [])], 3)"
proof -
  have "read_logs JSON_parse three_lines_server ''20240101.txt''
      = [(''app-prod-1'', JArr []), (''app-prod-2'', JArr []), (''app-prod-3'', JArr [])]"
    using three_lines_partition by (simp add: read_logs_entries query_partition_def)
  then show ?thesis
    using path_like_dates(1)
    by (simp add: get_webhook_deploy_log_def truthy_def or_else_def slice0_def)
qed

section \<open>Writing a log line and reading it back\<close>

lemma show_int_no_newline: "CHR 0x0A \<notin> set (show_int i)"
  using show_nat_digits [of "nat i"] show_nat_digits [of "nat (- i)"]
  by (auto simp: show_int_def)

lemma hex_digit_no_newline: "d < 16 \<Longrightarrow> hex_digit d \<noteq> CHR 0x0A"
proof -
  assume "d < 16"
  then have "hex_digit d \<in> set ''0123456789abcdef''"
    unfolding hex_digit_def by (intro nth_mem) simp
  then show ?thesis by auto
qed

lemma escape_char_no_newline: "CHR 0x0A \<notin> set (escape_char c)"
proof -
  have h1: "CHR 0x0A \<noteq> hex_digit ((of_char c :: nat) div 16)" if "(of_char c :: nat) < 32"
  proof -
    from that have "(of_char c :: nat) div 16 < 16" by presburger
    from hex_digit_no_newline [OF this] show ?thesis by auto
  qed
  have h2: "CHR 0x0A \<noteq> hex_digit ((of_char c :: nat) mod 16)"
    using hex_digit_no_newline [of "(of_char c :: nat) mod 16"] by auto
  show ?thesis
    using h1 h2 by (auto simp: escape_char_def)
qed

lemma quote_no_newline: "CHR 0x0A \<notin> set (quote s)"
  by (auto simp: quote_def escape_char_no_newline)

lemma stringify_no_newline:
  "CHR 0x0A \<notin> set (JSON_stringify v)"
  "CHR 0x0A \<notin> set (stringify_elems vs)"
  "CHR 0x0A \<notin> set (stringify_members ms)"
  by (induction v and vs and ms rule: JSON_stringify_stringify_elems_stringify_members.induct)
     (auto simp: show_int_no_newline quote_no_newline)


lemma less_16_cases:
  "d < 16 \<Longrightarrow> d = 0 \<or> d = 1 \<or> d = 2 \<or> d = 3 \<or> d = 4 \<or> d = 5 \<or> d = 6 \<or> d = 7
     \<or> d = 8 \<or> d = 9 \<or> d = 10 \<or> d = 11 \<or> d = 12 \<or> d = 13 \<or> d = 14 \<or> d = (15::nat)"
  by arith

lemma hex_val_hex_digit:
  assumes "d < 16"
  shows "hex_val (hex_digit d) = Some d"
  using less_16_cases [OF assms]
  by (elim disjE) (simp_all add: hex_val_def hex_digit_def)

lemma less_10_cases:
  "d < 10 \<Longrightarrow> d = 0 \<or> d = 1 \<or> d = 2 \<or> d = 3 \<or> d = 4 \<or> d = 5 \<or> d = 6 \<or> d = 7
     \<or> d = 8 \<or> d = (9::nat)"
  by arith

lemma digit_val_digit_char:
  assumes "d < 10"
  shows "digit_val (digit_char d) = Some d"
  using less_10_cases [OF assms]
  by (elim disjE) (simp_all add: digit_val_def digit_char_def)

lemma hex4_escape:
  assumes "(of_char c :: nat) < 32"
  shows "hex4 CHR ''0'' CHR ''0'' (hex_digit ((of_char c :: nat) div 16))
            (hex_digit ((of_char c :: nat) mod 16)) = Some c"
proof -
  from assms have d: "(of_char c :: nat) div 16 < 16" by presburger
  have m: "(of_char c :: nat) mod 16 < 16" by simp
  have z: "hex_val CHR ''0'' = Some 0" by (simp add: hex_val_def)
  have "char_of (16 * ((of_char c :: nat) div 16) + (of_char c :: nat) mod 16) = c"
    by simp
  then show ?thesis
    by (simp add: hex4_def z hex_val_hex_digit [OF d] hex_val_hex_digit [OF m])
qed

lemma parse_chars_escape:
  "parse_chars (escape_char c @ rest) =
     map_option (\<lambda>(s, r). (c # s, r)) (parse_chars rest)"
proof -
  consider (quote) "c = CHR 0x22" | (bs) "c = CHR 0x5C" | (b) "c = CHR 0x08" | (f) "c = CHR 0x0C"
    | (n) "c = CHR 0x0A" | (r) "c = CHR 0x0D" | (t) "c = CHR 0x09"
    | (ctl) "c \<noteq> CHR 0x22" "c \<noteq> CHR 0x5C" "c \<noteq> CHR 0x08" "c \<noteq> CHR 0x0C" "c \<noteq> CHR 0x0A"
        "c \<noteq> CHR 0x0D" "c \<noteq> CHR 0x09" "(of_char c :: nat) < 32"
    | (plain) "c \<noteq> CHR 0x22" "c \<noteq> CHR 0x5C" "\<not> (of_char c :: nat) < 32"
    by fastforce
  then show ?thesis
  proof cases
    case ctl
    then show ?thesis by (simp add: escape_char_def hex4_escape)
  next
    case plain
    then have "escape_char c = [c]" by (auto simp: escape_char_def)
    with plain show ?thesis by simp
  qed (simp_all add: escape_char_def unescape_def)
qed

lemma parse_chars_quote:
  "parse_chars (concat (map escape_char s) @ CHR 0x22 # rest) = Some (s, rest)"
  by (induction s) (simp_all add: parse_chars_escape)


lemma parse_digits_digits:
  assumes "\<forall>c\<in>set ds. digit_val c \<noteq> None"
    and "case rest of [] \<Rightarrow> True | c # cs \<Rightarrow> digit_val c = None"
  shows "parse_digits acc (ds @ rest) = (foldl (\<lambda>a c. 10 * a + the (digit_val c)) acc ds, rest)"
  using assms
proof (induction ds arbitrary: acc)
  case Nil
  then show ?case by (cases rest) simp_all
next
  case (Cons d ds)
  then show ?case by auto
qed

lemma show_nat_value:
  "(\<forall>c\<in>set (show_nat n). digit_val c \<noteq> None)
   \<and> foldl (\<lambda>a c. 10 * a + the (digit_val c)) 0 (show_nat n) = n
   \<and> show_nat n \<noteq> []"
proof (induction n rule: show_nat.induct)
  case (1 n)
  show ?case
  proof (cases "n < 10")
    case True
    then show ?thesis
      by (subst (1 2 3) show_nat.simps) (simp add: digit_val_digit_char)
  next
    case False
    then have m: "n mod 10 < 10" by simp
    from False 1 have IH: "\<forall>c\<in>set (show_nat (n div 10)). digit_val c \<noteq> None"
      "foldl (\<lambda>a c. 10 * a + the (digit_val c)) 0 (show_nat (n div 10)) = n div 10"
      by simp_all
    have eq: "show_nat n = show_nat (n div 10) @ [digit_char (n mod 10)]"
      using False by (subst show_nat.simps) simp
    show ?thesis
      unfolding eq using IH by (simp add: digit_val_digit_char [OF m])
  qed
qed

lemma digit_val_delims [simp]:
  "digit_val CHR '','' = None" "digit_val CHR '']'' = None" "digit_val CHR ''}'' = None"
  "digit_val CHR ''-'' = None" "digit_val CHR ''['' = None" "digit_val CHR ''{'' = None"
  "digit_val CHR 0x22 = None" "digit_val CHR ''t'' = None" "digit_val CHR ''f'' = None"
  "digit_val CHR ''n'' = None" "digit_val CHR 0x20 = None" "digit_val CHR 0x09 = None"
  "digit_val CHR 0x0A = None" "digit_val CHR 0x0D = None"
  by (simp_all add: digit_val_def)

lemma parse_number_show_int:
  assumes "delimited rest"
  shows "parse_number (show_int i @ rest) = Some (i, rest)"
proof -
  have r1: "case rest of [] \<Rightarrow> True | c # cs \<Rightarrow> digit_val c = None"
    using assms by (auto simp: delimited_def split: list.splits)
  have r2: "\<not> (case rest of [] \<Rightarrow> False | x # xs \<Rightarrow> x \<in> set ''.eE'')"
    using assms by (auto simp: delimited_def split: list.splits)
  have pos: "parse_number (show_nat n @ rest) = Some (int n, rest)" for n
  proof -
    from show_nat_value [of n] obtain c cs where
      sn: "show_nat n = c # cs" and dc: "digit_val c \<noteq> None"
      by (cases "show_nat n") auto
    then have nm: "c \<noteq> CHR ''-''" by auto
    have pd: "parse_digits 0 (show_nat n @ rest) = (n, rest)"
      using parse_digits_digits [OF _ r1, of "show_nat n" 0] show_nat_value [of n] by simp
    show ?thesis
      using pd r2 nm dc unfolding parse_number_def sn
      by (simp add: Let_def)
  qed
  have neg: "parse_number (CHR ''-'' # show_nat n @ rest) = Some (- int n, rest)" for n
  proof -
    from show_nat_value [of n] obtain c cs where
      sn: "show_nat n = c # cs" and dc: "digit_val c \<noteq> None"
      by (cases "show_nat n") auto
    have pd: "parse_digits 0 (show_nat n @ rest) = (n, rest)"
      using parse_digits_digits [OF _ r1, of "show_nat n" 0] show_nat_value [of n] by simp
    show ?thesis
      using pd r2 dc unfolding parse_number_def sn
      by (simp add: Let_def)
  qed
  show ?thesis
    using pos [of "nat i"] neg [of "nat (- i)"] by (simp add: show_int_def)
qed


lemma show_int_first:
  "\<exists>c cs. show_int i = c # cs \<and> (c = CHR ''-'' \<or> digit_val c \<noteq> None)"
proof -
  have "\<exists>c cs. show_nat n = c # cs \<and> digit_val c \<noteq> None" for n
    using show_nat_value [of n] by (cases "show_nat n") auto
  from this [of "nat i"] this [of "nat (- i)"] show ?thesis
    by (auto simp: show_int_def)
qed

lemma numeric_first_char:
  assumes "c = CHR ''-'' \<or> digit_val c \<noteq> None"
  shows "\<not> json_ws c" "c \<noteq> CHR ''[''" "c \<noteq> CHR ''{''" "c \<noteq> CHR 0x22" "c \<noteq> CHR ''t''"
    "c \<noteq> CHR ''f''" "c \<noteq> CHR ''n''" "c \<noteq> CHR '']''" "c \<noteq> CHR ''}''"
  using assms by (auto simp: json_ws_def)

lemma parse_value_num:
  assumes "delimited rest"
  shows "parse_value (Suc n) (show_int i @ rest) = Some (JNum i, rest)"
proof -
  from show_int_first [of i] obtain c cs where
    si: "show_int i = c # cs" and c: "c = CHR ''-'' \<or> digit_val c \<noteq> None"
    by blast
  have pn: "parse_number (c # cs @ rest) = Some (i, rest)"
    using parse_number_show_int [OF assms, of i] by (simp add: si)
  show ?thesis
    unfolding si using numeric_first_char [OF c] pn
    by (simp add: skip_ws_def)
qed

lemma parse_value_atoms:
  "parse_value (Suc n) (''null'' @ rest) = Some (JNull, rest)"
  "parse_value (Suc n) (''true'' @ rest) = Some (JBool True, rest)"
  "parse_value (Suc n) (''false'' @ rest) = Some (JBool False, rest)"
  "parse_value (Suc n) (quote s @ rest) = Some (JStr s, rest)"
  "parse_value (Suc n) (''[]'' @ rest) = Some (JArr [], rest)"
  "parse_value (Suc n) (''{}'' @ rest) = Some (JObj [], rest)"
  by (simp_all add: skip_ws_def json_ws_def quote_def parse_chars_quote)

lemma stringify_first:
  "\<exists>c cs. JSON_stringify v = c # cs \<and> \<not> json_ws c \<and> c \<noteq> CHR '']'' \<and> c \<noteq> CHR ''}''"
proof (cases v)
  case (JNum i)
  from show_int_first [of i] obtain c cs where
    "show_int i = c # cs" "c = CHR ''-'' \<or> digit_val c \<noteq> None" by blast
  with numeric_first_char [of c] JNum show ?thesis by auto
qed (auto simp: json_ws_def quote_def)

lemma parse_value_array:
  assumes "cs = c # cs'" and "\<not> json_ws c" and "c \<noteq> CHR '']''"
  shows "parse_value (Suc n) (CHR ''['' # cs) =
           map_option (\<lambda>(vs, rest). (JArr vs, rest)) (parse_elems n cs)"
  using assms by (simp add: skip_ws_def json_ws_def)

lemma parse_value_object:
  assumes "cs = c # cs'" and "\<not> json_ws c" and "c \<noteq> CHR ''}''"
  shows "parse_value (Suc n) (CHR ''{'' # cs) =
           map_option (\<lambda>(ms, rest). (JObj ms, rest)) (parse_members n cs)"
  using assms by (simp add: skip_ws_def json_ws_def)

lemma parse_elems_last:
  assumes "parse_value n s = Some (v, CHR '']'' # rest)"
  shows "parse_elems (Suc n) s = Some ([v], rest)"
  using assms by (simp add: skip_ws_def json_ws_def)

lemma parse_elems_more:
  assumes "parse_value n s = Some (v, CHR '','' # r)"
  shows "parse_elems (Suc n) s = map_option (\<lambda>(vs, rest). (v # vs, rest)) (parse_elems n r)"
  using assms by (simp add: skip_ws_def json_ws_def)

lemma parse_members_last:
  assumes "parse_value n s = Some (v, CHR ''}'' # rest)"
  shows "parse_members (Suc n) (quote k @ CHR '':'' # s) = Some ([(k, v)], rest)"
  using assms by (simp add: skip_ws_def json_ws_def quote_def parse_chars_quote)

lemma parse_members_more:
  assumes "parse_value n s = Some (v, CHR '','' # r)"
  shows "parse_members (Suc n) (quote k @ CHR '':'' # s) =
           map_option (\<lambda>(ms, rest). ((k, v) # ms, rest)) (parse_members n r)"
  using assms by (simp add: skip_ws_def json_ws_def quote_def parse_chars_quote)


lemma parse_stringify:
  "\<And>n rest. fuel v < n \<Longrightarrow> delimited rest \<Longrightarrow>
      parse_value n (JSON_stringify v @ rest) = Some (v, rest)"
  "\<And>n rest. vs \<noteq> [] \<Longrightarrow> fuel_elems vs < n \<Longrightarrow>
      parse_elems n (stringify_elems vs @ CHR '']'' # rest) = Some (vs, rest)"
  "\<And>n rest. ms \<noteq> [] \<Longrightarrow> fuel_members ms < n \<Longrightarrow>
      parse_members n (stringify_members ms @ CHR ''}'' # rest) = Some (ms, rest)"
proof (induction v and vs and ms rule: JSON_stringify_stringify_elems_stringify_members.induct)
  case 1
  then obtain m where "n = Suc m" by (cases n) auto
  then show ?case using parse_value_atoms(1) [of m rest] by simp
next
  case (2 b)
  then obtain m where "n = Suc m" by (cases n) auto
  then show ?case
    using parse_value_atoms(2) [of m rest] parse_value_atoms(3) [of m rest] by (cases b) simp_all
next
  case (3 i)
  then obtain m where "n = Suc m" by (cases n) auto
  then show ?case using parse_value_num [OF 3(2), of m i] by simp
next
  case (4 s)
  then obtain m where "n = Suc m" by (cases n) auto
  then show ?case using parse_value_atoms(4) [of m s rest] by simp
next
  case (5 vs)
  then obtain m where n: "n = Suc m" and m: "fuel_elems vs < m" by (cases n) auto
  show ?case
  proof (cases vs)
    case Nil
    then show ?thesis using parse_value_atoms(5) [of m rest] n by simp
  next
    case (Cons v vs')
    from stringify_first [of v] obtain c cs where
      f: "JSON_stringify v = c # cs" "\<not> json_ws c" "c \<noteq> CHR '']''"
      by blast
    have sh: "stringify_elems vs @ CHR '']'' # rest
                = c # (cs @ (if vs' = [] then [] else CHR '','' # stringify_elems vs') @ CHR '']'' # rest)"
      by (simp add: Cons f)
    have "parse_value (Suc m) (CHR ''['' # (stringify_elems vs @ CHR '']'' # rest)) =
            map_option (\<lambda>(vs, rest). (JArr vs, rest))
              (parse_elems m (stringify_elems vs @ CHR '']'' # rest))"
      by (rule parse_value_array [OF sh f(2,3)])
    moreover have "parse_elems m (stringify_elems vs @ CHR '']'' # rest) = Some (vs, rest)"
      by (rule 5(1)) (use m in \<open>simp_all add: Cons\<close>)
    ultimately show ?thesis by (simp add: n)
  qed
next
  case (6 ms)
  then obtain m where n: "n = Suc m" and m: "fuel_members ms < m" by (cases n) auto
  show ?case
  proof (cases ms)
    case Nil
    then show ?thesis using parse_value_atoms(6) [of m rest] n by simp
  next
    case (Cons kv ms')
    have sh: "stringify_members ms @ CHR ''}'' # rest
                = CHR 0x22 # (concat (map escape_char (fst kv)) @ [CHR 0x22] @ CHR '':'' # JSON_stringify (snd kv)
                     @ (if ms' = [] then [] else CHR '','' # stringify_members ms') @ CHR ''}'' # rest)"
      by (simp add: Cons quote_def)
    have "parse_value (Suc m) (CHR ''{'' # (stringify_members ms @ CHR ''}'' # rest)) =
            map_option (\<lambda>(ms, rest). (JObj ms, rest))
              (parse_members m (stringify_members ms @ CHR ''}'' # rest))"
      by (rule parse_value_object [OF sh]) (simp_all add: json_ws_def)
    moreover have "parse_members m (stringify_members ms @ CHR ''}'' # rest) = Some (ms, rest)"
      by (rule 6(1)) (use m in \<open>simp_all add: Cons\<close>)
    ultimately show ?thesis by (simp add: n)
  qed
next
  case 7
  then show ?case by simp
next
  case (8 v vs)
  from 8(4) obtain m where n: "n = Suc m" and m: "fuel v < m" "fuel_elems vs < m"
    by (cases n) auto
  show ?case
  proof (cases "vs = []")
    case True
    have "parse_value m (JSON_stringify v @ CHR '']'' # rest) = Some (v, CHR '']'' # rest)"
      by (rule 8(1) [OF m(1)]) (simp add: delimited_def)
    from parse_elems_last [OF this] show ?thesis by (simp add: n True)
  next
    case False
    have "parse_value m (JSON_stringify v @ CHR '','' # stringify_elems vs @ CHR '']'' # rest)
            = Some (v, CHR '','' # stringify_elems vs @ CHR '']'' # rest)"
      by (rule 8(1) [OF m(1)]) (simp add: delimited_def)
    from parse_elems_more [OF this] 8(2) [OF False False m(2), of rest]
    show ?thesis by (simp add: n False)
  qed
next
  case 9
  then show ?case by simp
next
  case (10 kv ms)
  from 10(4) obtain m where n: "n = Suc m" and m: "fuel (snd kv) < m" "fuel_members ms < m"
    by (cases n) auto
  show ?case
  proof (cases "ms = []")
    case True
    have "parse_value m (JSON_stringify (snd kv) @ CHR ''}'' # rest) = Some (snd kv, CHR ''}'' # rest)"
      by (rule 10(1) [OF m(1)]) (simp add: delimited_def)
    from parse_members_last [OF this, of "fst kv"] show ?thesis by (simp add: n True)
  next
    case False
    have "parse_value m (JSON_stringify (snd kv) @ CHR '','' # stringify_members ms @ CHR ''}'' # rest)
            = Some (snd kv, CHR '','' # stringify_members ms @ CHR ''}'' # rest)"
      by (rule 10(1) [OF m(1)]) (simp add: delimited_def)
    from parse_members_more [OF this, of "fst kv"] 10(2) [OF False False m(2), of rest]
    show ?thesis by (simp add: n False)
  qed
qed


lemma fuel_le_length:
  "fuel v \<le> length (JSON_stringify v)"
  "fuel_elems vs \<le> length (stringify_elems vs) + 1"
  "fuel_members ms \<le> length (stringify_members ms) + 1"
  by (induction v and vs and ms rule: JSON_stringify_stringify_elems_stringify_members.induct)
     auto

lemma JSON_parse_stringify: "JSON_parse (JSON_stringify v) = Some v"
proof -
  have "fuel v < Suc (length (JSON_stringify v))"
    using fuel_le_length(1) [of v] by simp
  from parse_stringify(1) [OF this, of "[]"]
  show ?thesis by (simp add: JSON_parse_def delimited_def skip_ws_def)
qed

lemma split_on_last: "c \<notin> set xs \<Longrightarrow> split_on c (xs @ [c]) = [xs, []]"
  by (induction xs) auto

lemma indexOf_first: "c \<notin> set xs \<Longrightarrow> indexOf c (xs @ c # ys) = Some (length xs)"
  by (induction xs) auto

lemma js_trim_nonblank:
  assumes "x \<in> set xs" and "\<not> is_space x"
  shows "js_trim xs \<noteq> []"
proof -
  define ys where "ys = dropWhile is_space xs"
  have "ys \<noteq> []" using assms by (auto simp: ys_def dropWhile_eq_Nil_conv)
  moreover have "\<not> is_space (hd ys)"
    using \<open>ys \<noteq> []\<close> unfolding ys_def by (rule hd_dropWhile)
  ultimately have "hd ys \<in> set (rev ys)" "\<not> is_space (hd ys)" by simp_all
  then have "dropWhile is_space (rev ys) \<noteq> []"
    by (auto simp: dropWhile_eq_Nil_conv)
  then show ?thesis by (simp add: js_trim_def ys_def)
qed

lemma js_trim_inner:
  assumes "xs \<noteq> []" and "\<not> is_space (hd xs)" and "\<not> is_space (last xs)"
  shows "js_trim (CHR 0x20 # xs) = xs"
proof -
  have "dropWhile is_space (CHR 0x20 # xs) = xs"
    using assms by (cases xs) (simp_all add: is_space_def)
  moreover have "dropWhile is_space (rev xs) = rev xs"
    using assms by (cases "rev xs") (simp_all add: last_rev [symmetric] hd_rev)
  ultimately show ?thesis by (simp add: js_trim_def)
qed

lemma stringify_array_ends:
  "JSON_stringify (JArr vs) \<noteq> []"
  "hd (JSON_stringify (JArr vs)) = CHR ''[''"
  "last (JSON_stringify (JArr vs)) = CHR '']''"
  by simp_all

lemma parseLogFile_logLine:
  assumes id1: "CHR '':'' \<notin> set (deployId lg)" and id2: "CHR 0x0A \<notin> set (deployId lg)"
    and P: "P (JSON_stringify (JArr (formattedSteps (steps lg))))
              = Some (JArr (formattedSteps (steps lg)))"
  shows "parseLogFile P (logLine lg) = [(js_trim (deployId lg), JArr (formattedSteps (steps lg)))]"
proof -
  define J where "J = JSON_stringify (JArr (formattedSteps (steps lg)))"
  define X where "X = deployId lg @ '': '' @ J"
  have Jn: "CHR 0x0A \<notin> set J" unfolding J_def by (rule stringify_no_newline)
  have Xn: "CHR 0x0A \<notin> set X" using id2 Jn by (simp add: X_def)
  have line: "logLine lg = X @ [CHR 0x0A]" by (simp add: logLine_def X_def J_def)
  have lines: "split_on CHR 0x0A (logLine lg) = [X, []]"
    unfolding line by (rule split_on_last [OF Xn])
  have nb: "js_trim X \<noteq> []"
    by (rule js_trim_nonblank [of "CHR '':''"]) (simp_all add: X_def is_space_def)
  have ix: "indexOf CHR '':'' X = Some (length (deployId lg))"
    using indexOf_first [OF id1, of "CHR 0x20 # J"] by (simp add: X_def)
  have tr: "js_trim (CHR 0x20 # J) = J"
    by (rule js_trim_inner) (simp_all add: J_def is_space_def)
  have tk: "take (length (deployId lg)) X = deployId lg"
    and dr: "drop (Suc (length (deployId lg))) X = CHR 0x20 # J"
    by (simp_all add: X_def)
  have PJ: "P J = Some (JArr (formattedSteps (steps lg)))"
    using P unfolding J_def .
  have pl: "parse_line P X = Some (js_trim (deployId lg), JArr (formattedSteps (steps lg)))"
    by (simp add: parse_line_def ix tk dr tr PJ Let_def)
  show ?thesis
    using nb by (simp add: parseLogFile_def lines pl js_trim_def List.map_filter_simps)
qed

lemma example_log_parsed:
  "parseLogFile JSON_parse (logLine example_log) =
     [(''app-prod-0'',
       JArr [JObj [(''step'', JNum 0), (''name'', JStr ''first''), (''command'', JStr ''echo A''),
                   (''status'', JStr ''success''), (''duration'', JNum 100),
                   (''output'', JStr ''A''), (''stderr'', JStr []), (''error'', JStr [])]])]"
  by code_simp

text \<open>
  C3, as amended. \<^verbatim>\<open>saveLog\<close> writes the line \<open>logLine lg\<close>. When the deployId has no
  colon and no line break, \<^verbatim>\<open>parseLogFile\<close> reads the line back as one entry, under the
  trimmed deployId, whose array has one object per step with the step's \<^verbatim>\<open>name\<close>,
  \<^verbatim>\<open>command\<close>, \<^verbatim>\<open>status\<close> and \<^verbatim>\<open>duration\<close>. The object has no \<^verbatim>\<open>order\<close>: it has a
  field \<^verbatim>\<open>step\<close>, the index of the step in the array, counted from 0 (for a record built
  by \<^verbatim>\<open>deployApp\<close> the order is this index plus one, \<open>deployApp_order\<close>). The parser is
  \<open>JSON_parse\<close>; by \<open>parseLogFile_logLine\<close> the same holds for every parser that returns
  the array whose text \<^verbatim>\<open>JSON.stringify\<close> wrote.
\<close>

theorem log_line_round_trip:
  assumes id1: "CHR '':'' \<notin> set (deployId lg)" and id2: "CHR 0x0A \<notin> set (deployId lg)"
  shows "parseLogFile JSON_parse (logLine lg)
           = [(js_trim (deployId lg), JArr (formattedSteps (steps lg)))]
     \<and> length (formattedSteps (steps lg)) = length (steps lg)
     \<and> (\<forall>j<length (steps lg).
           jget ''name'' (formattedSteps (steps lg) ! j) = Some (JStr (name (steps lg ! j)))
         \<and> jget ''command'' (formattedSteps (steps lg) ! j) = Some (JStr (command (steps lg ! j)))
         \<and> jget ''status'' (formattedSteps (steps lg) ! j) = Some (JStr (status (steps lg ! j)))
         \<and> jget ''duration'' (formattedSteps (steps lg) ! j) = Some (JNum (duration (steps lg ! j)))
         \<and> jget ''step'' (formattedSteps (steps lg) ! j) = Some (JNum (int j))
         \<and> jget ''order'' (formattedSteps (steps lg) ! j) = None)"
  using parseLogFile_logLine [where P = JSON_parse and lg = lg, OF id1 id2 JSON_parse_stringify]
  by (simp add: formattedSteps_nth formatStep_def)

theorem log_line_round_trip_witness:
  "parseLogFile JSON_parse (logLine example_log)
     = [(''app-prod-0'', JArr (formattedSteps (steps example_log)))]
   \<and> jget ''name'' (formattedSteps (steps example_log) ! 0) = Some (JStr ''first'')
   \<and> jget ''command'' (formattedSteps (steps example_log) ! 0) = Some (JStr ''echo A'')
   \<and> jget ''status'' (formattedSteps (steps example_log) ! 0) = Some (JStr ''success'')
   \<and> jget ''duration'' (formattedSteps (steps example_log) ! 0) = Some (JNum 100)
   \<and> jget ''step'' (formattedSteps (steps example_log) ! 0) = Some (JNum 0)"
proof -
  have id1: "CHR '':'' \<notin> set (deployId example_log)"
    and id2: "CHR 0x0A \<notin> set (deployId example_log)"
    by (simp_all add: example_log_def)
  have t: "js_trim (deployId example_log) = ''app-prod-0''"
    by (simp add: example_log_def js_trim_def is_space_def)
  have l: "0 < length (steps example_log)" by (simp add: example_log_def)
  have f: "name (steps example_log ! 0) = ''first''" "command (steps example_log ! 0) = ''echo A''"
    "status (steps example_log ! 0) = ''success''" "duration (steps example_log ! 0) = 100"
    by (simp_all add: example_log_def)
  from log_line_round_trip [where lg = example_log, OF id1 id2]
  show ?thesis using l by (simp add: t f)
qed

text \<open>
  C3 as stated fails for \<^verbatim>\<open>order\<close>: the step of the example record has order 1, and the
  object read back has no \<^verbatim>\<open>order\<close> and has \<^verbatim>\<open>step\<close> 0.
\<close>

theorem order_is_not_persisted:
  "order (steps example_log ! 0) = 1
   \<and> map (\<lambda>entry. case snd entry of
                      JArr objs \<Rightarrow> map (\<lambda>obj. (jget ''order'' obj, jget ''step'' obj)) objs
                    | _ \<Rightarrow> [])
         (parseLogFile JSON_parse (logLine example_log))
       = [[(None, Some (JNum 0))]]"
  by (simp add: example_log_parsed) (simp add: example_log_def)

end
